theory Spec2Isabelle
  imports Complex_Main "HOL-Library.Word"
begin

section \<open>The mask editor of the AI image editor (ImageEditor component)\<close>

text \<open>
  The development embeds the mask-authoring code of the \<^verbatim>\<open>ImageEditor\<close> React
  component (\<^verbatim>\<open>resizeImage\<close>, \<^verbatim>\<open>drawLine\<close>, \<^verbatim>\<open>drawShape\<close>, \<^verbatim>\<open>floodFill\<close>,
  the pointer handlers, \<^verbatim>\<open>clearDrawing\<close>, \<^verbatim>\<open>handleAutoMask\<close>, \<^verbatim>\<open>handleSubmit\<close>)
  and of the service functions \<^verbatim>\<open>editImageWithMask\<close> and \<^verbatim>\<open>generateBackgroundMask\<close>.

  Conventions of the embedding:
  \<^item> A JavaScript number is a real number (\<^typ>\<open>real\<close>) or, where the code only ever holds
    an integer, an \<^typ>\<open>int\<close> or \<^typ>\<open>nat\<close>. The arithmetic is exact; the code's double
    arithmetic agrees with it on the values used in the closed theorems below.
  \<^item> An element of a \<^verbatim>\<open>Uint8ClampedArray\<close> is a byte (\<^typ>\<open>8 word\<close>); the four
    consecutive bytes of one pixel of an \<^verbatim>\<open>ImageData\<close> are grouped into one
    \<open>pixel\<close>, so the byte index \<^verbatim>\<open>4 * k + c\<close> of the code is channel \<open>c\<close> of pixel \<open>k\<close>.
  \<^item> React state and refs are the fields of one record that every handler takes and
    returns.
  \<^item> What the browser or the network decides (promise outcomes, rasterisation of a
    stroke) is a parameter of the handler that depends on it.
\<close>

subsection \<open>Numbers\<close>

type_synonym byte = "8 word"

text \<open>\<^verbatim>\<open>Math.round\<close>: the nearest integer, a tie going up.\<close>

definition math_round :: "real \<Rightarrow> int" where
  "math_round q = \<lfloor>q + 1 / 2\<rfloor>"

text \<open>
  A store into a \<^verbatim>\<open>Uint8ClampedArray\<close> converts the number with ToUint8Clamp:
  clamp to \<open>[0, 255]\<close>, then the nearest integer, a tie going to the even one.
\<close>

definition to_uint8_clamp :: "real \<Rightarrow> byte" where
  "to_uint8_clamp q =
     (if q \<le> 0 then 0
      else if 255 \<le> q then 255
      else (let f = \<lfloor>q\<rfloor> in
            if of_int f + 1 / 2 < q then word_of_int (f + 1)
            else if q < of_int f + 1 / 2 then word_of_int f
            else if even f then word_of_int f else word_of_int (f + 1)))"

subsection \<open>resizeImage\<close>

definition MAX_DIMENSION :: nat where
  "MAX_DIMENSION = 1024"

text \<open>
  \<^verbatim>\<open>resizeImage(img)\<close> reads \<^verbatim>\<open>img.width\<close> and \<^verbatim>\<open>img.height\<close> (non-negative
  integers) and returns the pair \<^verbatim>\<open>{ width, height }\<close>. In each scaling branch the
  divisor is positive: it is the larger side, and one side exceeds 1024.
\<close>

definition resizeImage :: "nat \<times> nat \<Rightarrow> nat \<times> nat" where
  "resizeImage img =
     (let width = fst img; height = snd img in
      if width > MAX_DIMENSION \<or> height > MAX_DIMENSION then
        (if width > height
         then (MAX_DIMENSION,
               nat (math_round (of_nat height * (of_nat MAX_DIMENSION / of_nat width))))
         else (nat (math_round (of_nat width * (of_nat MAX_DIMENSION / of_nat height))),
               MAX_DIMENSION))
      else (width, height))"

subsection \<open>Pixels, image data and canvases\<close>

datatype pixel = RGBA (red: byte) (green: byte) (blue: byte) (alpha: byte)

definition transparent_black :: pixel where
  "transparent_black = RGBA 0 0 0 0"

text \<open>
  An \<^verbatim>\<open>ImageData\<close>: \<^verbatim>\<open>width\<close>, \<^verbatim>\<open>height\<close> and the row-major pixel array
  \<^verbatim>\<open>data\<close>. The pixel at column \<open>x\<close> and row \<open>y\<close> has index \<open>y * width + x\<close>.
\<close>

record imagedata =
  width :: nat
  height :: nat
  data :: "pixel list"

text \<open>A read at an index outside an array yields \<^verbatim>\<open>undefined\<close>, here \<open>None\<close>.\<close>

definition js_index :: "'a list \<Rightarrow> int \<Rightarrow> 'a option" where
  "js_index xs i = (if 0 \<le> i \<and> nat i < length xs then Some (xs ! nat i) else None)"

definition pixel_at :: "imagedata \<Rightarrow> nat \<Rightarrow> nat \<Rightarrow> pixel option" where
  "pixel_at img x y =
     (if x < width img \<and> y < height img \<and> y * width img + x < length (data img)
      then Some (data img ! (y * width img + x)) else None)"

text \<open>
  \<open>map_pixels f img\<close> rewrites every pixel inside the \<open>width \<times> height\<close> area with \<open>f x y\<close>
  of its column, its row and its old value.
\<close>

definition map_pixels :: "(nat \<Rightarrow> nat \<Rightarrow> pixel \<Rightarrow> pixel) \<Rightarrow> imagedata \<Rightarrow> imagedata" where
  "map_pixels f img =
     img\<lparr>data := map (\<lambda>i. if i < width img * height img
                            then f (i mod width img) (i div width img) (data img ! i)
                            else data img ! i)
                     [0..<length (data img)]\<rparr>"

text \<open>
  The two compositing modes the code selects through \<^verbatim>\<open>globalCompositeOperation\<close>.
  The browser composites; the model is the Porter-Duff operator of the Canvas
  specification on the 8-bit channel values that \<^verbatim>\<open>getImageData\<close> exposes, each
  quotient rounded to the nearest integer:
  \<^item> source-over: \<open>\<alpha>\<^sub>o = \<alpha>\<^sub>s + \<alpha>\<^sub>d (1 - \<alpha>\<^sub>s)\<close>,
    \<open>c\<^sub>o = (c\<^sub>s \<alpha>\<^sub>s + c\<^sub>d \<alpha>\<^sub>d (1 - \<alpha>\<^sub>s)) / \<alpha>\<^sub>o\<close>;
  \<^item> destination-out: \<open>\<alpha>\<^sub>o = \<alpha>\<^sub>d (1 - \<alpha>\<^sub>s)\<close>, the colour of the destination kept.
  A pixel whose resulting alpha is 0 is transparent black. The premultiplied storage
  of a browser's bitmap is not modelled: \<^verbatim>\<open>putImageData\<close> stores the values it is given.
  A browser's channel values may therefore differ from the model's by a unit; a source
  alpha of 0 or 255 and a destination alpha of 0 or 255 give the same result under any
  rounding.
\<close>

datatype composite_op = SourceOver | DestinationOut

definition div_round :: "nat \<Rightarrow> nat \<Rightarrow> nat" where
  "div_round a b = (2 * a + b) div (2 * b)"

definition composite_source_over :: "pixel \<Rightarrow> pixel \<Rightarrow> pixel" where
  "composite_source_over s d =
     (let sa = unat (alpha s);
          da = div_round (unat (alpha d) * (255 - sa)) 255;
          oa = sa + da;
          channel = (\<lambda>cs cd. of_nat (div_round (unat cs * sa + unat cd * da) oa))
      in if oa = 0 then transparent_black
         else RGBA (channel (red s) (red d)) (channel (green s) (green d))
                   (channel (blue s) (blue d)) (of_nat oa))"

definition composite_destination_out :: "pixel \<Rightarrow> pixel \<Rightarrow> pixel" where
  "composite_destination_out s d =
     (let oa = div_round (unat (alpha d) * (255 - unat (alpha s))) 255
      in if oa = 0 then transparent_black
         else RGBA (red d) (green d) (blue d) (of_nat oa))"

fun composite :: "composite_op \<Rightarrow> pixel \<Rightarrow> pixel \<Rightarrow> pixel" where
  "composite SourceOver s d = composite_source_over s d"
| "composite DestinationOut s d = composite_destination_out s d"

text \<open>What a pixel becomes when it is composited, source-over, onto a transparent pixel.\<close>

definition opaque_or_clear :: "pixel \<Rightarrow> pixel" where
  "opaque_or_clear p = (if alpha p = 0 then transparent_black else p)"

text \<open>
  A canvas element with its 2D context: the bitmap, the context's
  \<^verbatim>\<open>globalCompositeOperation\<close> (the one context attribute that the code does not set
  before every use; the context object and its attributes persist between calls of
  \<^verbatim>\<open>getContext('2d')\<close>), and whether \<^verbatim>\<open>getContext('2d')\<close> returns a context.
\<close>

record canvas =
  bitmap :: imagedata
  globalCompositeOperation :: composite_op
  context2d :: bool

text \<open>\<^verbatim>\<open>document.createElement('canvas')\<close> with \<^verbatim>\<open>width\<close> and \<^verbatim>\<open>height\<close> assigned.\<close>

definition createCanvas :: "nat \<Rightarrow> nat \<Rightarrow> bool \<Rightarrow> canvas" where
  "createCanvas w h ctx =
     \<lparr>bitmap = \<lparr>width = w, height = h, data = replicate (w * h) transparent_black\<rparr>,
      globalCompositeOperation = SourceOver, context2d = ctx\<rparr>"

datatype dom_error = IndexSizeError

text \<open>
  \<^verbatim>\<open>ctx.getImageData(0, 0, w, h)\<close> throws an \<^verbatim>\<open>IndexSizeError\<close> when \<open>w\<close> or \<open>h\<close> is 0;
  a pixel of the rectangle outside the canvas reads as transparent black.
\<close>

definition getImageData :: "canvas \<Rightarrow> nat \<Rightarrow> nat \<Rightarrow> dom_error + imagedata" where
  "getImageData c w h =
     (if w = 0 \<or> h = 0 then Inl IndexSizeError
      else Inr \<lparr>width = w, height = h,
                data = map (\<lambda>i. case pixel_at (bitmap c) (i mod w) (i div w) of
                                   None \<Rightarrow> transparent_black | Some p \<Rightarrow> p)
                           [0..<w * h]\<rparr>)"

text \<open>\<^verbatim>\<open>ctx.putImageData(img, 0, 0)\<close>: replaces the pixels that \<open>img\<close> covers, whatever
  the compositing mode.\<close>

definition putImageData :: "canvas \<Rightarrow> imagedata \<Rightarrow> canvas" where
  "putImageData c img =
     c\<lparr>bitmap := map_pixels (\<lambda>x y d. case pixel_at img x y of None \<Rightarrow> d | Some p \<Rightarrow> p)
                              (bitmap c)\<rparr>"

text \<open>\<^verbatim>\<open>ctx.drawImage(src, 0, 0)\<close> with a canvas as the source: composites the source
  pixels onto the canvas with the context's current compositing mode.\<close>

definition drawImage :: "canvas \<Rightarrow> imagedata \<Rightarrow> canvas" where
  "drawImage c src =
     c\<lparr>bitmap := map_pixels
                    (\<lambda>x y d. case pixel_at src x y of
                                None \<Rightarrow> d
                              | Some p \<Rightarrow> composite (globalCompositeOperation c) p d)
                    (bitmap c)\<rparr>"

text \<open>\<^verbatim>\<open>ctx.clearRect(0, 0, canvas.width, canvas.height)\<close>.\<close>

definition clearRect_all :: "canvas \<Rightarrow> canvas" where
  "clearRect_all c = c\<lparr>bitmap := map_pixels (\<lambda>x y d. transparent_black) (bitmap c)\<rparr>"

text \<open>
  Filling a shape. The rasteriser gives every pixel a coverage in \<open>[0, 1]\<close>; the source
  pixel is the fill colour with its alpha scaled by the coverage, composited with the
  current mode. A pixel that the shape does not touch is left as it is.
\<close>

definition scale_alpha :: "byte \<Rightarrow> real \<Rightarrow> byte" where
  "scale_alpha a cov =
     (if 1 \<le> cov then a else word_of_int (math_round (real (unat a) * cov)))"

definition fill_coverage :: "canvas \<Rightarrow> pixel \<Rightarrow> (nat \<Rightarrow> nat \<Rightarrow> real) \<Rightarrow> canvas" where
  "fill_coverage c colour cov =
     c\<lparr>bitmap := map_pixels
                    (\<lambda>x y d. if cov x y \<le> 0 then d
                              else composite (globalCompositeOperation c)
                                     (RGBA (red colour) (green colour) (blue colour)
                                        (scale_alpha (alpha colour) (cov x y)))
                                     d)
                    (bitmap c)\<rparr>"

text \<open>
  The coverage of \<^verbatim>\<open>fillRect(x, y, w, h)\<close>: the area of the pixel square
  \<open>[px, px + 1] \<times> [py, py + 1]\<close> inside the rectangle (a negative \<open>w\<close> or \<open>h\<close> extends the
  rectangle to the left or upwards).
\<close>

definition overlap :: "real \<Rightarrow> real \<Rightarrow> nat \<Rightarrow> real" where
  "overlap lo hi k = max 0 (min hi (real k + 1) - max lo (real k))"

definition rect_coverage :: "real \<Rightarrow> real \<Rightarrow> real \<Rightarrow> real \<Rightarrow> nat \<Rightarrow> nat \<Rightarrow> real" where
  "rect_coverage x y w h px py =
     overlap (min x (x + w)) (max x (x + w)) px * overlap (min y (y + h)) (max y (y + h)) py"

text \<open>
  The CSS colours of the code: \<^verbatim>\<open>rgba(192, 132, 252, a)\<close> and \<^verbatim>\<open>black\<close>. The alpha
  of a CSS colour is clamped to \<open>[0, 1]\<close> and held with 8 bits. How a browser rounds an
  alpha strictly between 0 and 1 is its own affair; the model rounds to the nearest
  byte, and a browser may differ from it by one unit. The alphas 0 and 1 are exact.
\<close>

definition css_alpha :: "real \<Rightarrow> byte" where
  "css_alpha a =
     (if a \<le> 0 then 0 else if 1 \<le> a then 255 else word_of_int (math_round (255 * a)))"

definition accent :: "real \<Rightarrow> pixel" where
  "accent a = RGBA 192 132 252 (css_alpha a)"

definition black :: pixel where
  "black = RGBA 0 0 0 255"

text \<open>
  The rasteriser of the browser for the two shapes whose coverage the code does not
  determine by itself: the round-capped stroke of a line segment of a given width, and
  the ellipse \<^verbatim>\<open>ellipse(cx, cy, rx, ry, 0, 0, 2\<pi>)\<close>.
\<close>

record rasterizer =
  stroke_coverage :: "real \<Rightarrow> real \<times> real \<Rightarrow> real \<times> real \<Rightarrow> nat \<Rightarrow> nat \<Rightarrow> real"
  ellipse_coverage :: "real \<Rightarrow> real \<Rightarrow> real \<Rightarrow> real \<Rightarrow> nat \<Rightarrow> nat \<Rightarrow> real"

subsection \<open>The editor's state\<close>

text \<open>
  A \<^verbatim>\<open>Point\<close> is a pair of coordinates in buffer pixel space. A JavaScript string
  whose characters matter (a prompt) is the list of its UTF-16 code units; messages,
  style names, MIME types and base64 payloads are opaque texts.
\<close>

type_synonym point = "real \<times> real"

type_synonym js_string = "16 word list"

datatype tool = Brush | Eraser | Rectangle | Circle | Fill

text \<open>
  The \<^verbatim>\<open>useState\<close> values and the \<^verbatim>\<open>useRef\<close> cells of \<^verbatim>\<open>ImageEditor\<close>, and the MIME
  type of the \<^verbatim>\<open>originalImage\<close> prop. A canvas ref is \<open>None\<close> while its \<^verbatim>\<open>current\<close> is
  \<^verbatim>\<open>null\<close>.
\<close>

record editor_state =
  prompt :: js_string
  negativePrompt :: js_string
  style :: string
  editedImage :: "string option"
  isLoading :: bool
  error :: "string option"
  brushSize :: real
  brushOpacity :: real
  activeTool :: tool
  isMasking :: bool
  upscaleFactor :: nat
  isUpscaling :: bool
  upscaledImage :: "string option"
  imageCanvas :: "canvas option"
  drawingCanvas :: "canvas option"
  isDrawing :: bool
  lastPoint :: "point option"
  shapeStartPoint :: "point option"
  canvasSnapshot :: "imagedata option"
  originalImage_type :: string

text \<open>The initial values of the state, for given canvases and MIME type.\<close>

definition initial_state :: "canvas option \<Rightarrow> canvas option \<Rightarrow> string \<Rightarrow> editor_state" where
  "initial_state ic dc mime =
     \<lparr>prompt = [], negativePrompt = [], style = ''Default'', editedImage = None,
      isLoading = False, error = None, brushSize = 40, brushOpacity = 7 / 10,
      activeTool = Brush, isMasking = False, upscaleFactor = 2, isUpscaling = False,
      upscaledImage = None, imageCanvas = ic, drawingCanvas = dc, isDrawing = False,
      lastPoint = None, shapeStartPoint = None, canvasSnapshot = None,
      originalImage_type = mime\<rparr>"

subsection \<open>drawLine and drawShape\<close>

definition drawLine :: "rasterizer \<Rightarrow> editor_state \<Rightarrow> point \<Rightarrow> point \<Rightarrow> editor_state" where
  "drawLine R s start endp =
     (case drawingCanvas s of
        None \<Rightarrow> s
      | Some c \<Rightarrow>
          if \<not> context2d c then s
          else
            let ctx = c\<lparr>globalCompositeOperation :=
                          (if activeTool s = Eraser then DestinationOut else SourceOver)\<rparr>
            in s\<lparr>drawingCanvas :=
                    Some (fill_coverage ctx (accent (brushOpacity s))
                            (stroke_coverage R (brushSize s) start endp))\<rparr>)"

definition drawShape :: "rasterizer \<Rightarrow> editor_state \<Rightarrow> point \<Rightarrow> point \<Rightarrow> editor_state" where
  "drawShape R s start endp =
     (case drawingCanvas s of
        None \<Rightarrow> s
      | Some c \<Rightarrow>
          if \<not> context2d c then s
          else
            let ctx = c\<lparr>globalCompositeOperation := SourceOver\<rparr>;
                w = fst endp - fst start;
                h = snd endp - snd start
            in if activeTool s = Rectangle then
                 s\<lparr>drawingCanvas :=
                     Some (fill_coverage ctx (accent (brushOpacity s))
                             (rect_coverage (fst start) (snd start) w h))\<rparr>
               else if activeTool s = Circle then
                 s\<lparr>drawingCanvas :=
                     Some (fill_coverage ctx (accent (brushOpacity s))
                             (ellipse_coverage R (fst start + w / 2) (snd start + h / 2)
                                (\<bar>w\<bar> / 2) (\<bar>h\<bar> / 2)))\<rparr>
               else s\<lparr>drawingCanvas := Some ctx\<rparr>)"

subsection \<open>floodFill\<close>

text \<open>
  The state of the \<^verbatim>\<open>while\<close> loop: the stack (its top is the head of the list, so the
  four pushes of one iteration appear in reverse order), the \<^verbatim>\<open>visited\<close> array as the
  set of the indices whose flag is 1 (the array has \<open>width * height\<close> flags and the
  bounds check keeps every index below that), and the pixels of \<^verbatim>\<open>drawingImageData\<close>.
\<close>

record fill_state =
  pixelStack :: "(int \<times> int) list"
  visited :: "nat set"
  drawingData :: "pixel list"

definition tolerance :: int where
  "tolerance = 30"

text \<open>
  The colour test of the loop. A channel read outside the arrays is \<^verbatim>\<open>undefined\<close>,
  the difference is then \<^verbatim>\<open>NaN\<close> and the comparison is false.
\<close>

definition similar :: "pixel option \<Rightarrow> pixel option \<Rightarrow> bool" where
  "similar cur start =
     (case (cur, start) of
        (Some p, Some q) \<Rightarrow>
          \<bar>uint (red p) - uint (red q)\<bar> \<le> tolerance
          \<and> \<bar>uint (green p) - uint (green q)\<bar> \<le> tolerance
          \<and> \<bar>uint (blue p) - uint (blue q)\<bar> \<le> tolerance
      | _ \<Rightarrow> False)"

text \<open>The alpha test \<^verbatim>\<open>drawingImageData.data[currentIdx + 3] > 0\<close>.\<close>

definition already_masked :: "pixel list \<Rightarrow> nat \<Rightarrow> bool" where
  "already_masked d i = (case js_index d (int i) of None \<Rightarrow> False | Some p \<Rightarrow> 0 < alpha p)"

text \<open>One iteration of the loop body, for a non-empty stack.\<close>

definition fill_step ::
  "nat \<Rightarrow> nat \<Rightarrow> pixel list \<Rightarrow> pixel option \<Rightarrow> pixel \<Rightarrow> fill_state \<Rightarrow> fill_state" where
  "fill_step w h imageData start fillColor st =
     (case pixelStack st of
        [] \<Rightarrow> st
      | (x, y) # rest \<Rightarrow>
          let st1 = st\<lparr>pixelStack := rest\<rparr> in
          if x < 0 \<or> x \<ge> int w \<or> y < 0 \<or> y \<ge> int h then st1
          else
            let visitedIdx = nat (y * int w + x) in
            if visitedIdx \<in> visited st1 then st1
            else
              let st2 = st1\<lparr>visited := insert visitedIdx (visited st1)\<rparr> in
              if already_masked (drawingData st2) visitedIdx then st2
              else if similar (js_index imageData (int visitedIdx)) start then
                st2\<lparr>drawingData := (drawingData st2)[visitedIdx := fillColor],
                    pixelStack := (x, y - 1) # (x, y + 1) # (x - 1, y) # (x + 1, y) # rest\<rparr>
              else st2)"

function floodFill_loop ::
  "nat \<Rightarrow> nat \<Rightarrow> pixel list \<Rightarrow> pixel option \<Rightarrow> pixel \<Rightarrow> fill_state \<Rightarrow> fill_state" where
  "floodFill_loop w h imageData start fillColor st =
     (if pixelStack st = [] then st
      else floodFill_loop w h imageData start fillColor
             (fill_step w h imageData start fillColor st))"
  by pat_completeness auto

text \<open>
  The loop ends: an iteration either only pops, or marks a new pixel of the
  \<open>width \<times> height\<close> area as visited and pushes at most four candidates.
\<close>

lemma pixel_index_bound:
  assumes "0 \<le> x" "x < int w" "0 \<le> y" "y < int h"
  shows "nat (y * int w + x) < w * h"
proof -
  obtain x' y' where x: "x = int x'" and y: "y = int y'"
    using assms by (meson nonneg_int_cases)
  have "y' * w + x' < (y' + 1) * w" using assms x by simp
  also have "\<dots> \<le> h * w" using assms y by (intro mult_le_mono1) simp
  finally have "y' * w + x' < w * h" by (simp add: mult.commute)
  moreover have "nat (y * int w + x) = y' * w + x'"
    unfolding x y by (simp add: nat_add_distrib nat_mult_distrib)
  ultimately show ?thesis by simp
qed

lemma card_unvisited_insert:
  assumes "i < (n::nat)" "i \<notin> V"
  shows "card ({..<n} - insert i V) < card ({..<n} - V)"
proof -
  have "{..<n} - insert i V \<subset> {..<n} - V" using assms by auto
  moreover have "finite ({..<n} - V)" by simp
  ultimately show ?thesis by (rule psubset_card_mono [rotated])
qed

lemma fill_step_decreases:
  assumes "pixelStack st \<noteq> []"
  shows "4 * card ({..<w * h} - visited (fill_step w h img start fc st))
           + length (pixelStack (fill_step w h img start fc st))
         < 4 * card ({..<w * h} - visited st) + length (pixelStack st)"
proof -
  obtain x y rest where st: "pixelStack st = (x, y) # rest"
    using assms by (cases "pixelStack st") auto
  show ?thesis
  proof (cases "x < 0 \<or> x \<ge> int w \<or> y < 0 \<or> y \<ge> int h \<or> nat (y * int w + x) \<in> visited st")
    case True
    then show ?thesis using st by (auto simp add: fill_step_def Let_def)
  next
    case False
    then have "nat (y * int w + x) < w * h" using pixel_index_bound [of x w y h] by simp
    with False have "card ({..<w * h} - insert (nat (y * int w + x)) (visited st))
        < card ({..<w * h} - visited st)"
      by (intro card_unvisited_insert) simp_all
    then show ?thesis using st False by (simp add: fill_step_def Let_def)
  qed
qed

termination floodFill_loop
  by (relation "measure (\<lambda>(w, h, img, start, fc, st).
         4 * card ({..<w * h} - visited st) + length (pixelStack st))")
     (simp_all add: fill_step_decreases)

declare floodFill_loop.simps [simp del]

text \<open>
  \<^verbatim>\<open>floodFill(startPos)\<close>. The result is the new state and the exception that left the
  function, if one did (\<^verbatim>\<open>getImageData\<close> throws on an empty rectangle, before
  anything is written). The start colour is read at index
  \<^verbatim>\<open>startY * width + startX\<close> before any bounds check, so it is \<^verbatim>\<open>undefined\<close>
  (\<open>None\<close>) when that index lies outside the array. \<^verbatim>\<open>fillColor[3]\<close> is
  \<^verbatim>\<open>Math.round(255 * brushOpacity)\<close>, stored into the clamped array.
\<close>

definition floodFill :: "editor_state \<Rightarrow> point \<Rightarrow> editor_state \<times> dom_error option" where
  "floodFill s startPos =
     (case (imageCanvas s, drawingCanvas s) of
        (Some ic, Some dc) \<Rightarrow>
          if \<not> context2d ic \<or> \<not> context2d dc then (s, None)
          else
            let w = width (bitmap ic);
                h = height (bitmap ic);
                startX = \<lfloor>fst startPos\<rfloor>;
                startY = \<lfloor>snd startPos\<rfloor>
            in (case getImageData ic w h of
                  Inl e \<Rightarrow> (s, Some e)
                | Inr imageData \<Rightarrow>
                    (case getImageData dc w h of
                       Inl e \<Rightarrow> (s, Some e)
                     | Inr drawingImageData \<Rightarrow>
                         let start = js_index (data imageData) (startY * int w + startX);
                             fillColor = RGBA 192 132 252
                               (to_uint8_clamp (of_int (math_round (255 * brushOpacity s))));
                             final = floodFill_loop w h (data imageData) start fillColor
                               \<lparr>pixelStack = [(startX, startY)], visited = {},
                                drawingData = data drawingImageData\<rparr>
                         in (s\<lparr>drawingCanvas :=
                                 Some (putImageData dc
                                         (drawingImageData\<lparr>data := drawingData final\<rparr>))\<rparr>,
                             None)))
      | _ \<Rightarrow> (s, None))"

subsection \<open>The pointer handlers and clearDrawing\<close>

text \<open>
  Each handler takes the point that \<^verbatim>\<open>getMousePos\<close> computed from the event.
  \<^verbatim>\<open>handleMouseDown\<close> can leave through the exception of \<^verbatim>\<open>getImageData\<close>; what it
  wrote before stays written.
\<close>

definition handleMouseDown :: "editor_state \<Rightarrow> point \<Rightarrow> editor_state \<times> dom_error option" where
  "handleMouseDown s pos =
     (if activeTool s = Fill then floodFill s pos
      else
        let s1 = s\<lparr>isDrawing := True\<rparr> in
        if activeTool s = Brush \<or> activeTool s = Eraser then (s1\<lparr>lastPoint := Some pos\<rparr>, None)
        else if activeTool s = Rectangle \<or> activeTool s = Circle then
          (let s2 = s1\<lparr>shapeStartPoint := Some pos\<rparr> in
           case drawingCanvas s2 of
             None \<Rightarrow> (s2, None)
           | Some c \<Rightarrow>
               if \<not> context2d c then (s2, None)
               else (case getImageData c (width (bitmap c)) (height (bitmap c)) of
                       Inl e \<Rightarrow> (s2, Some e)
                     | Inr img \<Rightarrow> (s2\<lparr>canvasSnapshot := Some img\<rparr>, None)))
        else (s1, None))"

definition handleMouseMove :: "rasterizer \<Rightarrow> editor_state \<Rightarrow> point \<Rightarrow> editor_state" where
  "handleMouseMove R s currentPos =
     (if \<not> isDrawing s then s
      else if activeTool s = Brush \<or> activeTool s = Eraser then
        (case lastPoint s of
           Some lp \<Rightarrow> drawLine R s lp currentPos
         | None \<Rightarrow> s)\<lparr>lastPoint := Some currentPos\<rparr>
      else if activeTool s = Rectangle \<or> activeTool s = Circle then
        (case shapeStartPoint s of
           None \<Rightarrow> s
         | Some sp \<Rightarrow>
             (case drawingCanvas s of
                None \<Rightarrow> s
              | Some c \<Rightarrow>
                  if \<not> context2d c then s
                  else (case canvasSnapshot s of
                          None \<Rightarrow> s
                        | Some snapshot \<Rightarrow>
                            drawShape R (s\<lparr>drawingCanvas := Some (putImageData c snapshot)\<rparr>)
                              sp currentPos)))
      else s)"

definition handleMouseUp :: "editor_state \<Rightarrow> editor_state" where
  "handleMouseUp s =
     s\<lparr>isDrawing := False, lastPoint := None, shapeStartPoint := None, canvasSnapshot := None\<rparr>"

definition clearDrawing :: "editor_state \<Rightarrow> editor_state" where
  "clearDrawing s =
     (case drawingCanvas s of
        None \<Rightarrow> s
      | Some c \<Rightarrow> if \<not> context2d c then s else s\<lparr>drawingCanvas := Some (clearRect_all c)\<rparr>)"

subsection \<open>The remote services\<close>

text \<open>
  How a promise settles: resolved with a value, or rejected with an \<^verbatim>\<open>Error\<close> carrying
  a message (\<open>Some\<close>) or with a value that is not an \<^verbatim>\<open>Error\<close> (\<open>None\<close>). The message
  that a \<^verbatim>\<open>catch\<close> block shows is \<^verbatim>\<open>err instanceof Error ? err.message : fallback\<close>.
\<close>

datatype 'a outcome = Resolved 'a | Rejected "string option"

fun catch_message :: "string option \<Rightarrow> string \<Rightarrow> string" where
  "catch_message (Some message) fallback = message"
| "catch_message None fallback = fallback"

text \<open>
  What \<^verbatim>\<open>ai.models.generateContent\<close> does with a request: it answers with the parts of
  the first candidate (for each part its \<^verbatim>\<open>inlineData.data\<close>, \<open>None\<close> for a part without
  inline data), or it throws an \<^verbatim>\<open>Error\<close> (a failed request, or the \<^verbatim>\<open>TypeError\<close> of
  reading a response without candidates), or it throws something else.
\<close>

datatype api_outcome = ApiResponse "string option list" | ApiError string | ApiThrown

text \<open>The six arguments of \<^verbatim>\<open>editImageWithMask\<close>; the mask is the bitmap that the PNG
  data URL of the mask canvas encodes.\<close>

record edit_args =
  arg_prompt :: js_string
  arg_negativePrompt :: js_string
  arg_style :: string
  arg_originalImageBase64 :: string
  arg_originalMimeType :: string
  arg_mask :: imagedata

datatype request = EditRequest edit_args | MaskRequest string string

fun first_inline_data :: "string option list \<Rightarrow> string option" where
  "first_inline_data [] = None"
| "first_inline_data (Some d # parts) = Some d"
| "first_inline_data (None # parts) = first_inline_data parts"

text \<open>
  \<^verbatim>\<open>editImageWithMask\<close> and \<^verbatim>\<open>generateBackgroundMask\<close>: the request they build is a
  function of their arguments, so the provider is applied to the arguments. Both
  return the first inline data, and rethrow every failure as an \<^verbatim>\<open>Error\<close>.
\<close>

definition editImageWithMask :: "(request \<Rightarrow> api_outcome) \<Rightarrow> edit_args \<Rightarrow> string outcome" where
  "editImageWithMask provider args =
     (case provider (EditRequest args) of
        ApiResponse parts \<Rightarrow>
          (case first_inline_data parts of
             Some d \<Rightarrow> Resolved d
           | None \<Rightarrow>
               Rejected (Some (''Failed to edit image: ''
                                 @ ''No image data found in the API response.'')))
      | ApiError message \<Rightarrow> Rejected (Some (''Failed to edit image: '' @ message))
      | ApiThrown \<Rightarrow> Rejected (Some ''An unknown error occurred while editing the image.''))"

definition generateBackgroundMask ::
  "(request \<Rightarrow> api_outcome) \<Rightarrow> string \<Rightarrow> string \<Rightarrow> string outcome" where
  "generateBackgroundMask provider imageBase64 mimeType =
     (case provider (MaskRequest imageBase64 mimeType) of
        ApiResponse parts \<Rightarrow>
          (case first_inline_data parts of
             Some d \<Rightarrow> Resolved d
           | None \<Rightarrow>
               Rejected (Some (''Failed to generate mask: ''
                                 @ ''No mask data found in the API response.'')))
      | ApiError message \<Rightarrow> Rejected (Some (''Failed to generate mask: '' @ message))
      | ApiThrown \<Rightarrow> Rejected (Some ''An unknown error occurred while generating the mask.''))"

text \<open>
  What the surroundings decide during one asynchronous handler: how
  \<^verbatim>\<open>fileToBase64(originalImage)\<close> settles, the provider, whether a canvas made by
  \<^verbatim>\<open>document.createElement\<close> yields a 2D context, and the loading of an image from a
  data URL (\<open>None\<close>: \<^verbatim>\<open>onerror\<close> fires; \<open>Some f\<close>: \<^verbatim>\<open>onload\<close> fires, and \<open>f w h\<close> are the
  pixels that \<^verbatim>\<open>drawImage(maskImage, 0, 0, w, h)\<close> draws).
\<close>

record env =
  fileToBase64 :: "string outcome"
  provider :: "request \<Rightarrow> api_outcome"
  createdContext :: bool
  loadImage :: "string \<Rightarrow> (nat \<Rightarrow> nat \<Rightarrow> imagedata) option"

subsection \<open>handleAutoMask\<close>

text \<open>The body of the normalising loop, for one pixel.\<close>

definition isWhite :: "pixel \<Rightarrow> bool" where
  "isWhite p = (200 < red p \<and> 200 < green p \<and> 200 < blue p)"

definition normalize_pixel :: "real \<Rightarrow> pixel \<Rightarrow> pixel" where
  "normalize_pixel opacity p =
     (if isWhite p then RGBA 192 132 252 (to_uint8_clamp (255 * opacity))
      else RGBA (red p) (green p) (blue p) 0)"

definition handleAutoMask :: "env \<Rightarrow> editor_state \<Rightarrow> editor_state \<times> dom_error option" where
  "handleAutoMask E s =
     (let s1 = s\<lparr>isMasking := True, error := None\<rparr>;
          caught = (\<lambda>err. (s1\<lparr>error := Some (catch_message err
                                    ''Failed to generate background mask.''),
                               isMasking := False\<rparr>, None))
      in case fileToBase64 E of
           Rejected err \<Rightarrow> caught err
         | Resolved originalImageBase64 \<Rightarrow>
             (case generateBackgroundMask (provider E) originalImageBase64
                     (originalImage_type s1) of
                Rejected err \<Rightarrow> caught err
              | Resolved maskBase64 \<Rightarrow>
                  (case loadImage E (''data:image/png;base64,'' @ maskBase64) of
                     None \<Rightarrow>
                       (s1\<lparr>error := Some ''Failed to load the generated mask.'',
                           isMasking := False\<rparr>, None)
                   | Some maskImage \<Rightarrow>
                       (case drawingCanvas s1 of
                          None \<Rightarrow>
                            (s1\<lparr>error := Some ''Drawing canvas not available.'',
                                isMasking := False\<rparr>, None)
                        | Some canvas \<Rightarrow>
                            if \<not> context2d canvas then
                              (s1\<lparr>error := Some ''Drawing canvas not available.'',
                                  isMasking := False\<rparr>, None)
                            else
                              let w = width (bitmap canvas);
                                  h = height (bitmap canvas);
                                  tempCanvas = createCanvas w h (createdContext E)
                              in if \<not> context2d tempCanvas then
                                   (s1\<lparr>error := Some ''Could not create temp canvas context.'',
                                       isMasking := False\<rparr>, None)
                                 else
                                   let temp1 = drawImage tempCanvas (maskImage w h) in
                                   (case getImageData temp1 w h of
                                      Inl e \<Rightarrow> (s1, Some e)
                                    | Inr imageData \<Rightarrow>
                                        let temp2 = putImageData temp1
                                              (imageData\<lparr>data :=
                                                 map (normalize_pixel (brushOpacity s1))
                                                     (data imageData)\<rparr>);
                                            s2 = clearDrawing s1
                                        in (s2\<lparr>drawingCanvas :=
                                                 map_option (\<lambda>ctx. drawImage ctx (bitmap temp2))
                                                   (drawingCanvas s2),
                                               isMasking := False\<rparr>, None))))))"

subsection \<open>handleSubmit\<close>

text \<open>
  \<^verbatim>\<open>String.prototype.trim\<close> removes the white space and line terminator code units
  from both ends.
\<close>

definition js_whitespace :: "16 word \<Rightarrow> bool" where
  "js_whitespace c =
     (c \<in> {0x9, 0xA, 0xB, 0xC, 0xD, 0x20, 0xA0, 0x1680, 0x2028, 0x2029, 0x202F, 0x205F,
            0x3000, 0xFEFF}
      \<or> (0x2000 \<le> c \<and> c \<le> 0x200A))"

definition trim :: "js_string \<Rightarrow> js_string" where
  "trim t = rev (dropWhile js_whitespace (rev (dropWhile js_whitespace t)))"

text \<open>The body of the loop after \<^verbatim>\<open>// Create mask\<close>, for one pixel.\<close>

definition binarize :: "pixel \<Rightarrow> pixel" where
  "binarize p = (if 0 < alpha p then RGBA 255 255 255 255 else p)"

text \<open>
  The statements from \<^verbatim>\<open>maskCtx.fillStyle = 'black'\<close> to the final
  \<^verbatim>\<open>maskCtx.putImageData\<close>, on the new mask canvas and the drawing canvas.
\<close>

definition createMask :: "canvas \<Rightarrow> canvas \<Rightarrow> dom_error + canvas" where
  "createMask maskCanvas drawing =
     (let w = width (bitmap maskCanvas);
          h = height (bitmap maskCanvas);
          filled = fill_coverage maskCanvas black (rect_coverage 0 0 (real w) (real h));
          drawn = drawImage filled (bitmap drawing)
      in case getImageData drawn w h of
           Inl e \<Rightarrow> Inl e
         | Inr imageData \<Rightarrow>
             Inr (putImageData drawn (imageData\<lparr>data := map binarize (data imageData)\<rparr>)))"

text \<open>
  \<^verbatim>\<open>handleSubmit\<close>. The result is the final state, the calls of \<^verbatim>\<open>editImageWithMask\<close>
  that were made, and the exception that left the function outside its \<^verbatim>\<open>try\<close> block,
  if one did.
\<close>

definition handleSubmit ::
  "env \<Rightarrow> editor_state \<Rightarrow> editor_state \<times> edit_args list \<times> dom_error option" where
  "handleSubmit E s =
     (let s1 = s\<lparr>isLoading := True, error := None, editedImage := None,
                 upscaledImage := None\<rparr>;
          invalid = (s1\<lparr>error := Some ''Please draw a mask and enter a prompt.'',
                        isLoading := False\<rparr>, [], None)
      in case (imageCanvas s1, drawingCanvas s1) of
           (Some ic, Some dc) \<Rightarrow>
             if trim (prompt s1) = [] then invalid
             else
               let maskCanvas = createCanvas (width (bitmap dc)) (height (bitmap dc))
                                  (createdContext E)
               in if \<not> context2d maskCanvas then
                    (s1\<lparr>error := Some ''Could not create mask context.'',
                        isLoading := False\<rparr>, [], None)
                  else
                    (case createMask maskCanvas dc of
                       Inl e \<Rightarrow> (s1, [], Some e)
                     | Inr serialized \<Rightarrow>
                         (case fileToBase64 E of
                            Rejected err \<Rightarrow>
                              (s1\<lparr>error := Some (catch_message err
                                                    ''An unknown error occurred.''),
                                  isLoading := False\<rparr>, [], None)
                          | Resolved originalImageBase64 \<Rightarrow>
                              let args = \<lparr>arg_prompt = prompt s1,
                                          arg_negativePrompt = negativePrompt s1,
                                          arg_style = style s1,
                                          arg_originalImageBase64 = originalImageBase64,
                                          arg_originalMimeType = originalImage_type s1,
                                          arg_mask = bitmap serialized\<rparr>
                              in (case editImageWithMask (provider E) args of
                                    Resolved resultBase64 \<Rightarrow>
                                      (s1\<lparr>editedImage :=
                                            Some (''data:image/png;base64,'' @ resultBase64),
                                          isLoading := False\<rparr>, [args], None)
                                  | Rejected err \<Rightarrow>
                                      (s1\<lparr>error := Some (catch_message err
                                                            ''An unknown error occurred.''),
                                          isLoading := False\<rparr>, [args], None))))
         | _ \<Rightarrow> invalid)"

subsection \<open>Example inputs\<close>

text \<open>
  A 2 \<times> 2 photo whose two upper pixels have similar colours, a mask buffer of the same
  size whose upper right pixel carries paint, and a state that holds both with the
  fill tool selected.
\<close>

definition example_image :: canvas where
  "example_image =
     \<lparr>bitmap = \<lparr>width = 2, height = 2,
                data = [RGBA 10 20 30 255, RGBA 12 22 28 255,
                        RGBA 200 20 30 255, RGBA 10 20 30 255]\<rparr>,
      globalCompositeOperation = SourceOver, context2d = True\<rparr>"

definition example_painted :: canvas where
  "example_painted =
     \<lparr>bitmap = \<lparr>width = 2, height = 2,
                data = [transparent_black, RGBA 192 132 252 179,
                        transparent_black, transparent_black]\<rparr>,
      globalCompositeOperation = SourceOver, context2d = True\<rparr>"

definition example_state :: editor_state where
  "example_state =
     (initial_state (Some example_image) (Some example_painted) ''image/png'')
       \<lparr>activeTool := Fill\<rparr>"

text \<open>
  A crude rasteriser for the examples: it covers fully every pixel whose centre lies in
  the bounding box of the segment grown by half the line width, or in the bounding box
  of the ellipse.
\<close>

definition example_rasterizer :: rasterizer where
  "example_rasterizer =
     \<lparr>stroke_coverage = (\<lambda>lineWidth a b px py.
         if min (fst a) (fst b) - lineWidth / 2 \<le> real px + 1 / 2
            \<and> real px + 1 / 2 \<le> max (fst a) (fst b) + lineWidth / 2
            \<and> min (snd a) (snd b) - lineWidth / 2 \<le> real py + 1 / 2
            \<and> real py + 1 / 2 \<le> max (snd a) (snd b) + lineWidth / 2
         then 1 else 0),
      ellipse_coverage = (\<lambda>cx cy rx ry px py.
         if cx - rx \<le> real px + 1 / 2 \<and> real px + 1 / 2 \<le> cx + rx
            \<and> cy - ry \<le> real py + 1 / 2 \<and> real py + 1 / 2 \<le> cy + ry
         then 1 else 0)\<rparr>"

text \<open>
  Surroundings in which the photo is read, the provider fails every edit request and
  answers every mask request with an image, and that image loads as all white.
\<close>

definition example_env :: env where
  "example_env =
     \<lparr>fileToBase64 = Resolved ''UEhPVE8='',
      provider = (\<lambda>r. case r of
                        EditRequest a \<Rightarrow> ApiError ''fetch failed''
                      | MaskRequest i m \<Rightarrow> ApiResponse [None, Some ''TUFTSw==''] ),
      createdContext = True,
      loadImage = (\<lambda>url. Some (\<lambda>w h. \<lparr>width = w, height = h,
                     data = replicate (w * h) (RGBA 255 255 255 255)\<rparr>))\<rparr>"

text \<open>The initial state on canvases of one pixel.\<close>

definition one_pixel_state :: editor_state where
  "one_pixel_state =
     initial_state (Some (createCanvas 1 1 True)) (Some (createCanvas 1 1 True)) ''image/png''"

text \<open>
  The state after this gesture on 100 \<times> 100 canvases, with the rectangle tool at opacity
  1.0: pointer down at (10, 10), pointer move to (50, 50), pointer up. The prompt is
  \<^verbatim>\<open>"a"\<close>.
\<close>

definition rectangle_drawn :: editor_state where
  "rectangle_drawn =
     handleMouseUp
       (handleMouseMove example_rasterizer
          (fst (handleMouseDown
                  ((initial_state (Some (createCanvas 100 100 True))
                      (Some (createCanvas 100 100 True)) ''image/png'')
                     \<lparr>activeTool := Rectangle, brushOpacity := 1, prompt := [0x61]\<rparr>)
                  (10, 10)))
          (50, 50))"

text \<open>A state that holds an edited and an upscaled result, with the prompt \<^verbatim>\<open>"a"\<close>.\<close>

definition submitted_before :: editor_state where
  "submitted_before =
     one_pixel_state\<lparr>prompt := [0x61], editedImage := Some ''data:image/png;base64,T0xE'',
        upscaledImage := Some ''data:image/png;base64,QklH''\<rparr>"

text \<open>
  One brush stroke over the single pixel at the initial settings (opacity 0.7), then one
  eraser stroke over the same segment at the same settings.
\<close>

definition brushed_then_erased :: editor_state where
  "brushed_then_erased =
     drawLine example_rasterizer
       ((drawLine example_rasterizer one_pixel_state (0, 0) (1, 1))\<lparr>activeTool := Eraser\<rparr>)
       (0, 0) (1, 1)"

text \<open>One eraser stroke on the empty one-pixel mask buffer.\<close>

definition erased_state :: editor_state where
  "erased_state =
     drawLine example_rasterizer (one_pixel_state\<lparr>activeTool := Eraser\<rparr>) (0, 0) (1, 1)"

text \<open>
  A segmentation image whose pixels repeat four values: a light grey just above the
  threshold, a pixel whose red channel is exactly 200, a transparent white pixel and a
  dark pixel. In \<open>segmentation_env\<close> the generated mask loads as that image.
\<close>

definition example_segmentation :: "nat \<Rightarrow> nat \<Rightarrow> imagedata" where
  "example_segmentation w h =
     \<lparr>width = w, height = h,
      data = map (\<lambda>i. [RGBA 201 201 201 255, RGBA 200 255 255 255,
                        RGBA 255 255 255 0, RGBA 10 10 10 255] ! (i mod 4))
                 [0..<w * h]\<rparr>"

definition segmentation_env :: env where
  "segmentation_env = example_env\<lparr>loadImage := (\<lambda>url. Some example_segmentation)\<rparr>"

section \<open>Properties\<close>

subsection \<open>Bitmaps\<close>

lemma index_split:
  assumes "x < (w::nat)"
  shows "(y * w + x) mod w = x" and "(y * w + x) div w = y"
  using assms by simp_all

lemma index_join:
  assumes "i < w * (h::nat)"
  shows "i mod w < w" and "i div w < h" and "i div w * w + i mod w = i"
proof -
  have w: "0 < w" using assms by (cases w) simp_all
  show "i mod w < w" using w by simp
  show "i div w < h" using assms by (simp add: less_mult_imp_div_less mult.commute)
  show "i div w * w + i mod w = i" by simp
qed

lemma map_pixels_dims [simp]:
  "width (map_pixels f img) = width img"
  "height (map_pixels f img) = height img"
  "length (data (map_pixels f img)) = length (data img)"
  by (simp_all add: map_pixels_def)

lemma pixel_at_map_pixels:
  "pixel_at (map_pixels f img) x y = map_option (f x y) (pixel_at img x y)"
proof (cases "x < width img \<and> y < height img \<and> y * width img + x < length (data img)")
  case True
  then have "y * width img + x < (y + 1) * width img" by simp
  also have "\<dots> \<le> height img * width img" using True by (intro mult_le_mono1) simp
  finally have "y * width img + x < width img * height img" by (simp add: mult.commute)
  then show ?thesis using True by (simp add: pixel_at_def map_pixels_def)
next
  case False
  then show ?thesis by (auto simp add: pixel_at_def map_pixels_def)
qed

lemma map_pixels_unchanged:
  assumes "\<And>x y p. pixel_at img x y = Some p \<Longrightarrow> f x y p = p"
  shows "map_pixels f img = img"
proof -
  have "map (\<lambda>i. if i < width img * height img
                  then f (i mod width img) (i div width img) (data img ! i)
                  else data img ! i) [0..<length (data img)]
        = map (\<lambda>i. data img ! i) [0..<length (data img)]"
  proof (rule map_cong [OF refl])
    fix i assume "i \<in> set [0..<length (data img)]"
    then have i: "i < length (data img)" by simp
    show "(if i < width img * height img
           then f (i mod width img) (i div width img) (data img ! i) else data img ! i)
          = data img ! i"
    proof (cases "i < width img * height img")
      case True
      have "pixel_at img (i mod width img) (i div width img) = Some (data img ! i)"
        using index_join [OF True] i by (simp add: pixel_at_def)
      then show ?thesis using True assms by simp
    next
      case False
      then show ?thesis by simp
    qed
  qed
  then show ?thesis by (simp add: map_pixels_def map_nth)
qed

lemma getImageData_Inr:
  assumes "getImageData c w h = Inr img"
  shows "width img = w" and "height img = h" and "length (data img) = w * h"
    and "0 < w" and "0 < h"
  using assms by (auto simp add: getImageData_def split: if_splits)

lemma pixel_at_getImageData:
  assumes "getImageData c w h = Inr img"
  shows "pixel_at img x y =
           (if x < w \<and> y < h
            then Some (case pixel_at (bitmap c) x y of None \<Rightarrow> transparent_black | Some p \<Rightarrow> p)
            else None)"
proof (cases "x < w \<and> y < h")
  case True
  then have "y * w + x < (y + 1) * w" by simp
  also have "\<dots> \<le> h * w" using True by (intro mult_le_mono1) simp
  finally have lt: "y * w + x < w * h" by (simp add: mult.commute)
  show ?thesis using assms True lt
    by (auto simp add: getImageData_def pixel_at_def split: if_splits)
next
  case False
  then show ?thesis using assms
    by (auto simp add: getImageData_def pixel_at_def split: if_splits)
qed

lemma put_get_same:
  assumes "getImageData c w h = Inr img"
  shows "putImageData c img = c"
proof -
  have "map_pixels (\<lambda>x y d. case pixel_at img x y of None \<Rightarrow> d | Some p \<Rightarrow> p) (bitmap c)
        = bitmap c"
    by (rule map_pixels_unchanged) (simp add: pixel_at_getImageData [OF assms])
  then show ?thesis by (simp add: putImageData_def)
qed

subsection \<open>floodFill\<close>

lemma floodFill_loop_out_of_bounds:
  assumes "x < 0 \<or> int w \<le> x \<or> y < 0 \<or> int h \<le> y"
  shows "floodFill_loop w h img start fc \<lparr>pixelStack = [(x, y)], visited = V, drawingData = d\<rparr>
         = \<lparr>pixelStack = [], visited = V, drawingData = d\<rparr>"
proof -
  have step: "fill_step w h img start fc \<lparr>pixelStack = [(x, y)], visited = V, drawingData = d\<rparr>
              = \<lparr>pixelStack = [], visited = V, drawingData = d\<rparr>"
    using assms by (auto simp add: fill_step_def)
  show ?thesis
    by (subst floodFill_loop.simps, simp add: step, subst floodFill_loop.simps, simp)
qed

text \<open>
  C6. When the floored start point lies outside the buffer (left of column 0, at or
  beyond the width, above row 0, or at or beyond the height), \<^verbatim>\<open>floodFill\<close> changes
  nothing: the state after the call, the mask buffer included, is the state before it.
\<close>

theorem floodFill_out_of_bounds_noop:
  assumes "imageCanvas s = Some ic"
    and "\<lfloor>fst pos\<rfloor> < 0 \<or> int (width (bitmap ic)) \<le> \<lfloor>fst pos\<rfloor>
         \<or> \<lfloor>snd pos\<rfloor> < 0 \<or> int (height (bitmap ic)) \<le> \<lfloor>snd pos\<rfloor>"
  shows "fst (floodFill s pos) = s"
proof (cases "drawingCanvas s")
  case None
  then show ?thesis using assms by (simp add: floodFill_def)
next
  case (Some dc)
  let ?w = "width (bitmap ic)" and ?h = "height (bitmap ic)"
  show ?thesis
  proof (cases "getImageData dc ?w ?h")
    case (Inl e)
    then show ?thesis using assms Some
      by (simp add: floodFill_def Let_def split: sum.splits)
  next
    case (Inr img)
    have "putImageData dc (img\<lparr>data := data img\<rparr>) = dc"
      using put_get_same [OF Inr] by simp
    then have "s\<lparr>drawingCanvas := Some (putImageData dc (img\<lparr>data := data img\<rparr>))\<rparr> = s"
      using Some by simp
    then show ?thesis using assms Some Inr
      by (simp add: floodFill_def Let_def floodFill_loop_out_of_bounds split: sum.splits)
  qed
qed

theorem floodFill_out_of_bounds_noop_witness:
  "fst (floodFill example_state (2, 0)) = example_state
   \<and> fst (floodFill example_state (0, - 1 / 2)) = example_state"
proof -
  have ic: "imageCanvas example_state = Some example_image"
    by (simp add: example_state_def initial_state_def)
  have a: "fst (floodFill example_state (2, 0)) = example_state"
    using floodFill_out_of_bounds_noop [OF ic, of "(2, 0)"]
    by (simp add: example_image_def)
  have b: "fst (floodFill example_state (0, - 1 / 2)) = example_state"
    using floodFill_out_of_bounds_noop [OF ic, of "(0, - 1 / 2)"]
    by (simp add: example_image_def)
  show ?thesis using a b by simp
qed

lemma already_masked_iff:
  "already_masked d i \<longleftrightarrow> (i < length d \<and> 0 < alpha (d ! i))"
  by (simp add: already_masked_def js_index_def)

lemma fill_step_length [simp]:
  "length (drawingData (fill_step w h img start fc st)) = length (drawingData st)"
  by (simp add: fill_step_def Let_def split: list.splits prod.splits)

lemma update_other_pixel:
  assumes "\<not> 0 < alpha (d ! j)" "0 < alpha (d ! i)"
  shows "d[j := v] ! i = d ! i"
  using assms by (cases "i = j") auto

lemma fill_step_keeps_painted:
  assumes "i < length (drawingData st)" "0 < alpha (drawingData st ! i)"
  shows "drawingData (fill_step w h img start fc st) ! i = drawingData st ! i"
  using assms
  by (auto simp add: fill_step_def Let_def already_masked_iff update_other_pixel
           split: list.splits prod.splits)

lemma floodFill_loop_length [simp]:
  "length (drawingData (floodFill_loop w h img start fc st)) = length (drawingData st)"
proof (induction w h img start fc st rule: floodFill_loop.induct)
  case (1 w h img start fc st)
  show ?case
    by (subst floodFill_loop.simps) (simp add: "1.IH")
qed

lemma floodFill_loop_keeps_painted:
  assumes "i < length (drawingData st)" "0 < alpha (drawingData st ! i)"
  shows "drawingData (floodFill_loop w h img start fc st) ! i = drawingData st ! i"
  using assms
proof (induction w h img start fc st rule: floodFill_loop.induct)
  case (1 w h img start fc st)
  show ?case
  proof (cases "pixelStack st = []")
    case True
    then show ?thesis by (subst floodFill_loop.simps) simp
  next
    case False
    have keep: "drawingData (fill_step w h img start fc st) ! i = drawingData st ! i"
      using "1.prems" by (rule fill_step_keeps_painted)
    have "drawingData (floodFill_loop w h img start fc (fill_step w h img start fc st)) ! i
          = drawingData (fill_step w h img start fc st) ! i"
      using False "1.prems" keep by (intro "1.IH") simp_all
    then show ?thesis using False keep by (subst floodFill_loop.simps) simp
  qed
qed

lemma funpow_fill_step_keeps_painted:
  assumes "i < length (drawingData st)" "0 < alpha (drawingData st ! i)"
  shows "length (drawingData ((fill_step w h img start fc ^^ n) st)) = length (drawingData st)
         \<and> drawingData ((fill_step w h img start fc ^^ n) st) ! i = drawingData st ! i"
  using assms by (induction n) (simp_all add: fill_step_keeps_painted)

lemma fill_step_skips_masked:
  assumes "pixelStack st = (int x, int y) # rest" "x < w" "y < h"
    and "already_masked (drawingData st) (y * w + x)"
  shows "pixelStack (fill_step w h img start fc st) = rest"
    and "drawingData (fill_step w h img start fc st) = drawingData st"
proof -
  have idx: "nat (int y * int w + int x) = y * w + x"
    by (simp add: nat_add_distrib nat_mult_distrib)
  show "pixelStack (fill_step w h img start fc st) = rest"
    using assms by (simp add: fill_step_def Let_def idx)
  show "drawingData (fill_step w h img start fc st) = drawingData st"
    using assms by (simp add: fill_step_def Let_def idx)
qed

lemma pixel_at_with_data:
  "pixel_at (img\<lparr>data := d\<rparr>) x y =
     (if x < width img \<and> y < height img \<and> y * width img + x < length d
      then Some (d ! (y * width img + x)) else None)"
  by (simp add: pixel_at_def)

lemma floodFill_result_pixel:
  assumes get: "getImageData dc w h = Inr img"
    and p: "pixel_at (bitmap dc) x y = Some p" "0 < alpha p"
  shows "pixel_at (bitmap (putImageData dc
            (img\<lparr>data := drawingData (floodFill_loop w h im start fc
               \<lparr>pixelStack = stk, visited = V, drawingData = data img\<rparr>)\<rparr>))) x y = Some p"
proof -
  let ?final = "drawingData (floodFill_loop w h im start fc
               \<lparr>pixelStack = stk, visited = V, drawingData = data img\<rparr>)"
  note dims = getImageData_Inr [OF get]
  have len: "length ?final = w * h" using dims by simp
  have "pixel_at (img\<lparr>data := ?final\<rparr>) x y = None \<or> pixel_at (img\<lparr>data := ?final\<rparr>) x y = Some p"
  proof (cases "x < w \<and> y < h")
    case False
    then show ?thesis using dims by (auto simp add: pixel_at_with_data)
  next
    case True
    then have "y * w + x < (y + 1) * w" by simp
    also have "\<dots> \<le> h * w" using True by (intro mult_le_mono1) simp
    finally have lt: "y * w + x < w * h" by (simp add: mult.commute)
    have "pixel_at img x y = Some p"
      using True p by (simp add: pixel_at_getImageData [OF get])
    then have at: "data img ! (y * w + x) = p"
      using dims by (simp add: pixel_at_def split: if_splits)
    have "?final ! (y * w + x) = data img ! (y * w + x)"
      using floodFill_loop_keeps_painted
        [where i = "y * w + x"
           and st = "\<lparr>pixelStack = stk, visited = V, drawingData = data img\<rparr>"
           and w = w and h = h and img = im and start = start and fc = fc]
        lt dims at p by simp
    then show ?thesis using True lt len dims at by (simp add: pixel_at_with_data)
  qed
  then show ?thesis using p
    by (auto simp add: putImageData_def pixel_at_map_pixels)
qed

text \<open>
  C5. A pixel whose mask alpha is greater than 0 before \<^verbatim>\<open>floodFill\<close> is called has the
  same mask pixel after the call. It is never a growth seed: in whatever iteration of
  the loop it is popped, whatever the loop's inputs, the iteration pushes nothing (the
  stack is left with the entries below it) and writes nothing to the mask data.
\<close>

theorem floodFill_respects_painted:
  "(\<forall>s pos dc x y p.
      drawingCanvas s = Some dc \<and> pixel_at (bitmap dc) x y = Some p \<and> 0 < alpha p \<longrightarrow>
      (\<exists>dc'. drawingCanvas (fst (floodFill s pos)) = Some dc'
             \<and> pixel_at (bitmap dc') x y = Some p))
   \<and> (\<forall>w h img start fc st0 n x y rest.
        x < w \<and> y < h \<and> already_masked (drawingData st0) (y * w + x)
        \<and> pixelStack ((fill_step w h img start fc ^^ n) st0) = (int x, int y) # rest \<longrightarrow>
        pixelStack ((fill_step w h img start fc ^^ Suc n) st0) = rest
        \<and> drawingData ((fill_step w h img start fc ^^ Suc n) st0)
            = drawingData ((fill_step w h img start fc ^^ n) st0))"
proof (rule conjI; intro allI impI)
  fix s :: editor_state and pos and dc :: canvas and x y p
  assume a: "drawingCanvas s = Some dc \<and> pixel_at (bitmap dc) x y = Some p \<and> 0 < alpha p"
  show "\<exists>dc'. drawingCanvas (fst (floodFill s pos)) = Some dc'
             \<and> pixel_at (bitmap dc') x y = Some p"
  proof (cases "imageCanvas s")
    case None
    then show ?thesis using a by (simp add: floodFill_def)
  next
    case (Some ic)
    show ?thesis
    proof (cases "getImageData dc (width (bitmap ic)) (height (bitmap ic))")
      case (Inl e)
      then show ?thesis using a Some
        by (simp add: floodFill_def Let_def split: sum.splits)
    next
      case (Inr img)
      show ?thesis using a Some Inr floodFill_result_pixel [OF Inr]
        by (simp add: floodFill_def Let_def split: sum.splits)
    qed
  qed
next
  fix w h img start fc and st0 :: fill_state and n x y rest
  assume a: "x < w \<and> y < h \<and> already_masked (drawingData st0) (y * w + x)
        \<and> pixelStack ((fill_step w h img start fc ^^ n) st0) = (int x, int y) # rest"
  let ?st = "(fill_step w h img start fc ^^ n) st0"
  have "y * w + x < length (drawingData st0)" "0 < alpha (drawingData st0 ! (y * w + x))"
    using a by (simp_all add: already_masked_iff)
  then have "already_masked (drawingData ?st) (y * w + x)"
    using funpow_fill_step_keeps_painted
      [where i = "y * w + x" and st = st0 and w = w and h = h and img = img
         and start = start and fc = fc and n = n]
    by (simp add: already_masked_iff)
  then have "pixelStack (fill_step w h img start fc ?st) = rest
     \<and> drawingData (fill_step w h img start fc ?st) = drawingData ?st"
    using a fill_step_skips_masked
      [where st = ?st and x = x and y = y and rest = rest and w = w and h = h
         and img = img and start = start and fc = fc] by simp
  then show "pixelStack ((fill_step w h img start fc ^^ Suc n) st0) = rest
        \<and> drawingData ((fill_step w h img start fc ^^ Suc n) st0)
            = drawingData ((fill_step w h img start fc ^^ n) st0)"
    by simp
qed

theorem floodFill_respects_painted_witness:
  "(\<exists>dc'. drawingCanvas (fst (floodFill example_state (0, 0))) = Some dc'
          \<and> pixel_at (bitmap dc') 1 0 = Some (RGBA 192 132 252 179))
   \<and> pixelStack ((fill_step 2 2 (data (bitmap example_image)) (Some (RGBA 10 20 30 255))
         (RGBA 192 132 252 179) ^^ 4)
         \<lparr>pixelStack = [(0, 0)], visited = {}, drawingData = data (bitmap example_painted)\<rparr>)
       = [(1, 0)]
   \<and> pixelStack ((fill_step 2 2 (data (bitmap example_image)) (Some (RGBA 10 20 30 255))
         (RGBA 192 132 252 179) ^^ 5)
         \<lparr>pixelStack = [(0, 0)], visited = {}, drawingData = data (bitmap example_painted)\<rparr>)
       = []
   \<and> drawingData ((fill_step 2 2 (data (bitmap example_image)) (Some (RGBA 10 20 30 255))
         (RGBA 192 132 252 179) ^^ 5)
         \<lparr>pixelStack = [(0, 0)], visited = {}, drawingData = data (bitmap example_painted)\<rparr>)
       = [RGBA 192 132 252 179, RGBA 192 132 252 179, transparent_black, transparent_black]"
proof -
  let ?f = "fill_step 2 2 (data (bitmap example_image)) (Some (RGBA 10 20 30 255))
         (RGBA 192 132 252 179)"
  let ?st0 = "\<lparr>pixelStack = [(0, 0)], visited = {}, drawingData = data (bitmap example_painted)\<rparr>"
  have dc: "drawingCanvas example_state = Some example_painted"
    by (simp add: example_state_def initial_state_def)
  have px: "pixel_at (bitmap example_painted) 1 0 = Some (RGBA 192 132 252 179)"
    by (simp add: example_painted_def pixel_at_def)
  have a: "\<exists>dc'. drawingCanvas (fst (floodFill example_state (0, 0))) = Some dc'
          \<and> pixel_at (bitmap dc') 1 0 = Some (RGBA 192 132 252 179)"
    using floodFill_respects_painted [THEN conjunct1, rule_format,
        of example_state example_painted 1 0 "RGBA 192 132 252 179" "(0, 0)"] dc px
    by simp
  have unroll: "\<And>f (x :: fill_state). (f ^^ 4) x = f (f (f (f x)))"
    by (simp add: numeral_eq_Suc)
  have four: "(?f ^^ 4) ?st0 =
      \<lparr>pixelStack = [(1, 0)], visited = {2, 0},
       drawingData = [RGBA 192 132 252 179, RGBA 192 132 252 179,
                      transparent_black, transparent_black]\<rparr>"
    unfolding unroll
    by (simp add: fill_step_def example_image_def example_painted_def Let_def
          already_masked_def js_index_def similar_def tolerance_def transparent_black_def)
  have masked: "already_masked (drawingData ?st0) (0 * 2 + 1)"
    by (simp add: example_painted_def already_masked_def js_index_def)
  have b: "pixelStack ((?f ^^ Suc 4) ?st0) = []
      \<and> drawingData ((?f ^^ Suc 4) ?st0) = drawingData ((?f ^^ 4) ?st0)"
    using floodFill_respects_painted [THEN conjunct2, rule_format,
        where w = 2 and h = 2 and x = 1 and y = 0 and n = 4 and rest = "[]"
          and ?st0.0 = ?st0 and img = "data (bitmap example_image)"
          and start = "Some (RGBA 10 20 30 255)" and fc = "RGBA 192 132 252 179"]
      masked four
    by simp
  have five: "(5::nat) = Suc 4" by simp
  show ?thesis using a b four unfolding five by simp
qed

lemma floodFill_loop_iterates:
  "\<exists>n. floodFill_loop w h img start fc st = (fill_step w h img start fc ^^ n) st
       \<and> pixelStack ((fill_step w h img start fc ^^ n) st) = []"
proof (induction w h img start fc st rule: floodFill_loop.induct)
  case (1 w h img start fc st)
  show ?case
  proof (cases "pixelStack st = []")
    case True
    then have "floodFill_loop w h img start fc st = (fill_step w h img start fc ^^ 0) st"
      by (subst floodFill_loop.simps) simp
    then show ?thesis using True by (intro exI [of _ 0]) simp
  next
    case False
    then obtain n where n: "floodFill_loop w h img start fc (fill_step w h img start fc st)
        = (fill_step w h img start fc ^^ n) (fill_step w h img start fc st)"
      "pixelStack ((fill_step w h img start fc ^^ n) (fill_step w h img start fc st)) = []"
      using "1.IH" by blast
    have "floodFill_loop w h img start fc st = (fill_step w h img start fc ^^ Suc n) st"
      using False n(1) by (subst floodFill_loop.simps) (simp add: funpow_swap1)
    moreover have "pixelStack ((fill_step w h img start fc ^^ Suc n) st) = []"
      using n(2) by (simp add: funpow_swap1)
    ultimately show ?thesis by blast
  qed
qed


subsection \<open>Compositing and the mask of handleSubmit\<close>

lemma div_round_multiple:
  assumes "0 < b"
  shows "div_round (b * k) b = k"
proof -
  have "div_round (b * k) b = (b * (2 * k + 1)) div (b * 2)"
    by (simp add: div_round_def algebra_simps)
  also have "\<dots> = (2 * k + 1) div 2"
    using assms by (intro div_mult_mult1) simp
  also have "\<dots> = k" by simp
  finally show ?thesis .
qed

lemma div_round_zero: "0 < b \<Longrightarrow> div_round 0 b = 0"
  by (simp add: div_round_def)

lemma source_over_opaque_alpha:
  assumes "alpha d = 255"
  shows "alpha (composite_source_over s d) = 255"
proof -
  have sa: "unat (alpha s) \<le> 255"
    using unsigned_less [of "alpha s", where ?'a = nat] by simp
  have "div_round (255 * (255 - unat (alpha s))) 255 = 255 - unat (alpha s)"
    by (rule div_round_multiple) simp
  then have oa: "unat (alpha s) + div_round (unat (alpha d) * (255 - unat (alpha s))) 255 = 255"
    using sa assms by simp
  show ?thesis unfolding composite_source_over_def Let_def oa by simp
qed

lemma source_over_onto_clear:
  "composite_source_over s transparent_black
   = (if alpha s = 0 then transparent_black else s)"
proof (cases s)
  case (RGBA r g b a)
  show ?thesis
  proof (cases "a = 0")
    case True
    then show ?thesis using RGBA
      by (simp add: composite_source_over_def transparent_black_def div_round_zero)
  next
    case False
    then have pos: "0 < unat a" by (simp add: unat_gt_0)
    have ch: "\<And>c. div_round (c * unat a) (unat a) = c"
      using div_round_multiple [OF pos] by (simp add: mult.commute)
    show ?thesis using RGBA False pos
      by (simp add: composite_source_over_def transparent_black_def Let_def ch div_round_zero)
  qed
qed

lemma overlap_full: "x < w \<Longrightarrow> overlap 0 (real w) x = 1"
  by (simp add: overlap_def)

lemma rect_coverage_full:
  "x < w \<Longrightarrow> y < h \<Longrightarrow> rect_coverage 0 0 (real w) (real h) x y = 1"
  by (simp add: rect_coverage_def overlap_full)

lemma pixel_at_bounds:
  "pixel_at img x y = Some p \<Longrightarrow> x < width img \<and> y < height img"
  by (simp add: pixel_at_def split: if_splits)

lemma map_pixels_const:
  assumes "length (data img) = width img * height img"
    and "\<And>x y p. pixel_at img x y = Some p \<Longrightarrow> f x y p = c"
  shows "map_pixels f img = img\<lparr>data := replicate (width img * height img) c\<rparr>"
proof -
  have "map (\<lambda>i. if i < width img * height img
                  then f (i mod width img) (i div width img) (data img ! i)
                  else data img ! i) [0..<length (data img)]
        = replicate (width img * height img) c"
  proof (rule replicate_eqI)
    show "length (map (\<lambda>i. if i < width img * height img
                  then f (i mod width img) (i div width img) (data img ! i)
                  else data img ! i) [0..<length (data img)]) = width img * height img"
      using assms(1) by simp
  next
    fix p assume "p \<in> set (map (\<lambda>i. if i < width img * height img
                  then f (i mod width img) (i div width img) (data img ! i)
                  else data img ! i) [0..<length (data img)])"
    then obtain i where i: "i < width img * height img"
      and p: "p = f (i mod width img) (i div width img) (data img ! i)"
      using assms(1) by auto
    have "pixel_at img (i mod width img) (i div width img) = Some (data img ! i)"
      using index_join [OF i] i assms(1) by (simp add: pixel_at_def)
    then show "p = c" using assms(2) p by simp
  qed
  then show ?thesis by (simp add: map_pixels_def)
qed

lemma createMask_all_white:
  assumes "0 < w" "0 < h"
  shows "createMask (createCanvas w h True) drawing
         = Inr \<lparr>bitmap = \<lparr>width = w, height = h,
                           data = replicate (w * h) (RGBA 255 255 255 255)\<rparr>,
                globalCompositeOperation = SourceOver, context2d = True\<rparr>"
proof -
  let ?blank = "\<lparr>width = w, height = h, data = replicate (w * h) transparent_black\<rparr>"
  let ?black = "\<lparr>width = w, height = h, data = replicate (w * h) black\<rparr>"
  let ?fill = "\<lambda>x y d. if rect_coverage 0 0 (real w) (real h) x y \<le> 0 then d
                 else composite_source_over
                        (RGBA (red black) (green black) (blue black)
                           (scale_alpha (alpha black) (rect_coverage 0 0 (real w) (real h) x y))) d"
  let ?draw = "\<lambda>x y d. case pixel_at (bitmap drawing) x y of
                 None \<Rightarrow> d | Some p \<Rightarrow> composite_source_over p d"
  have blank_px: "\<And>x y p. pixel_at ?blank x y = Some p \<Longrightarrow> p = transparent_black"
    by (auto simp add: pixel_at_def split: if_splits)
  have filled: "map_pixels ?fill ?blank = ?black"
  proof -
    have "map_pixels ?fill ?blank = ?blank\<lparr>data := replicate (width ?blank * height ?blank) black\<rparr>"
    proof (rule map_pixels_const)
      show "length (data ?blank) = width ?blank * height ?blank" by simp
    next
      fix x y p assume px: "pixel_at ?blank x y = Some p"
      then have xy: "x < w" "y < h" using pixel_at_bounds [OF px] by simp_all
      have p: "p = transparent_black" using px by (rule blank_px)
      show "?fill x y p = black"
        using xy by (simp add: rect_coverage_full p scale_alpha_def source_over_onto_clear black_def)
    qed
    then show ?thesis by simp
  qed
  let ?drawn = "map_pixels ?draw ?black"
  have drawn_dims: "width ?drawn = w" "height ?drawn = h" "length (data ?drawn) = w * h"
    by simp_all
  have drawn_px: "\<And>x y. x < w \<Longrightarrow> y < h \<Longrightarrow>
      \<exists>q. pixel_at ?drawn x y = Some q \<and> alpha q = 255"
  proof -
    fix x y assume xy: "x < w" "y < h"
    then have "y * w + x < (y + 1) * w" by simp
    also have "\<dots> \<le> h * w" using xy by (intro mult_le_mono1) simp
    finally have lt: "y * w + x < w * h" by (simp add: mult.commute)
    have "pixel_at ?black x y = Some black" using xy lt by (simp add: pixel_at_def)
    then have "pixel_at ?drawn x y = Some (?draw x y black)"
      by (simp add: pixel_at_map_pixels)
    moreover have "alpha (?draw x y black) = 255"
      by (simp add: source_over_opaque_alpha black_def split: option.splits)
    ultimately show "\<exists>q. pixel_at ?drawn x y = Some q \<and> alpha q = 255" by blast
  qed
  let ?c2 = "\<lparr>bitmap = ?drawn, globalCompositeOperation = SourceOver, context2d = True\<rparr>"
  let ?got = "\<lparr>width = w, height = h,
               data = map (\<lambda>i. case pixel_at ?drawn (i mod w) (i div w) of
                                  None \<Rightarrow> transparent_black | Some p \<Rightarrow> p) [0..<w * h]\<rparr>"
  have get: "getImageData ?c2 w h = Inr ?got"
    using assms by (simp add: getImageData_def)
  have bin: "map binarize (data ?got) = replicate (w * h) (RGBA 255 255 255 255)"
  proof (rule replicate_eqI)
    show "length (map binarize (data ?got)) = w * h" by simp
  next
    fix p assume "p \<in> set (map binarize (data ?got))"
    then obtain i where i: "i < w * h"
      and p: "p = binarize (case pixel_at ?drawn (i mod w) (i div w) of
                              None \<Rightarrow> transparent_black | Some p \<Rightarrow> p)"
      by auto
    obtain q where "pixel_at ?drawn (i mod w) (i div w) = Some q" "alpha q = 255"
      using drawn_px [of "i mod w" "i div w"] index_join [OF i] by blast
    then show "p = RGBA 255 255 255 255" by (simp add: p binarize_def)
  qed
  let ?white = "\<lparr>width = w, height = h, data = replicate (w * h) (RGBA 255 255 255 255)\<rparr>"
  have put: "map_pixels (\<lambda>x y d. case pixel_at ?white x y of None \<Rightarrow> d | Some p \<Rightarrow> p) ?drawn
             = ?white"
  proof -
    have "map_pixels (\<lambda>x y d. case pixel_at ?white x y of None \<Rightarrow> d | Some p \<Rightarrow> p) ?drawn
          = ?drawn\<lparr>data := replicate (width ?drawn * height ?drawn) (RGBA 255 255 255 255)\<rparr>"
    proof (rule map_pixels_const)
      show "length (data ?drawn) = width ?drawn * height ?drawn" by simp
    next
      fix x y p assume px: "pixel_at ?drawn x y = Some p"
      then have xy: "x < w" "y < h" using pixel_at_bounds [OF px] by simp_all
      then have "y * w + x < (y + 1) * w" by simp
      also have "\<dots> \<le> h * w" using xy by (intro mult_le_mono1) simp
      finally have lt: "y * w + x < w * h" by (simp add: mult.commute)
      show "(case pixel_at ?white x y of None \<Rightarrow> p | Some p \<Rightarrow> p) = RGBA 255 255 255 255"
        using xy lt by (simp add: pixel_at_def)
    qed
    then show ?thesis by (simp add: map_pixels_def)
  qed
  have c1: "fill_coverage (createCanvas w h True) black (rect_coverage 0 0 (real w) (real h))
            = \<lparr>bitmap = ?black, globalCompositeOperation = SourceOver, context2d = True\<rparr>"
    by (simp add: fill_coverage_def createCanvas_def filled cong: if_cong)
  have c2: "drawImage \<lparr>bitmap = ?black, globalCompositeOperation = SourceOver,
                       context2d = True\<rparr> (bitmap drawing) = ?c2"
    by (simp add: drawImage_def cong: option.case_cong)
  have c3: "putImageData ?c2 (?got\<lparr>data := map binarize (data ?got)\<rparr>)
            = \<lparr>bitmap = ?white, globalCompositeOperation = SourceOver, context2d = True\<rparr>"
    unfolding bin by (simp add: putImageData_def put)
  have dims: "width (bitmap (createCanvas w h True)) = w"
    "height (bitmap (createCanvas w h True)) = h"
    by (simp_all add: createCanvas_def)
  show ?thesis
    unfolding createMask_def Let_def dims c1 c2 get by (simp only: sum.case c3)
qed

lemma createCanvas_simps [simp]:
  "width (bitmap (createCanvas w h c)) = w"
  "height (bitmap (createCanvas w h c)) = h"
  "length (data (bitmap (createCanvas w h c))) = w * h"
  "context2d (createCanvas w h c) = c"
  "globalCompositeOperation (createCanvas w h c) = SourceOver"
  by (simp_all add: createCanvas_def)

lemma pixel_at_createCanvas:
  "pixel_at (bitmap (createCanvas w h c)) x y
   = (if x < w \<and> y < h then Some transparent_black else None)"
proof (cases "x < w \<and> y < h")
  case True
  then have "y * w + x < (y + 1) * w" by simp
  also have "\<dots> \<le> h * w" using True by (intro mult_le_mono1) simp
  finally have "y * w + x < w * h" by (simp add: mult.commute)
  then show ?thesis using True by (simp add: pixel_at_def createCanvas_def)
next
  case False
  then show ?thesis by (auto simp add: pixel_at_def createCanvas_def)
qed

lemma rectangle_drawn_canvas:
  "\<exists>dc. drawingCanvas rectangle_drawn = Some dc
     \<and> width (bitmap dc) = 100 \<and> height (bitmap dc) = 100
     \<and> pixel_at (bitmap dc) 0 0 = Some transparent_black
     \<and> pixel_at (bitmap dc) 10 10 = Some (RGBA 192 132 252 255)
     \<and> pixel_at (bitmap dc) 49 49 = Some (RGBA 192 132 252 255)
     \<and> pixel_at (bitmap dc) 50 50 = Some transparent_black"
proof -
  let ?c = "createCanvas 100 100 True"
  obtain snap where snap: "getImageData ?c 100 100 = Inr snap"
    by (simp add: getImageData_def)
  have put: "putImageData ?c snap = ?c" using snap by (rule put_get_same)
  show ?thesis
    by (simp add: rectangle_drawn_def handleMouseUp_def handleMouseMove_def handleMouseDown_def
          initial_state_def snap put drawShape_def fill_coverage_def pixel_at_map_pixels
          pixel_at_createCanvas rect_coverage_def overlap_def accent_def css_alpha_def
          scale_alpha_def source_over_onto_clear Let_def)
qed

subsection \<open>The fill tool's pointer events\<close>

lemma floodFill_only_mask:
  "fst (floodFill s pos) = s\<lparr>drawingCanvas := drawingCanvas (fst (floodFill s pos))\<rparr>"
  by (simp add: floodFill_def Let_def split: option.splits sum.splits)

lemma handleMouseMove_fill:
  "activeTool s = Fill \<Longrightarrow> handleMouseMove R s p = s"
  by (simp add: handleMouseMove_def)

lemma fold_handleMouseMove_fill:
  "activeTool s = Fill \<Longrightarrow> fold (\<lambda>p st. handleMouseMove R st p) moves s = s"
  by (induction moves) (simp_all add: handleMouseMove_fill)

text \<open>
  C10. With the fill tool active, a pointer-down is exactly one call of \<^verbatim>\<open>floodFill\<close>;
  it leaves the drawing flag, the last point, the shape origin and the snapshot as
  they were; and any sequence of pointer-move events that follows leaves the state,
  the mask buffer included, unchanged.
\<close>

theorem fill_tool_has_no_drag:
  assumes "activeTool s = Fill"
  shows "handleMouseDown s pos = floodFill s pos
    \<and> isDrawing (fst (handleMouseDown s pos)) = isDrawing s
    \<and> lastPoint (fst (handleMouseDown s pos)) = lastPoint s
    \<and> shapeStartPoint (fst (handleMouseDown s pos)) = shapeStartPoint s
    \<and> canvasSnapshot (fst (handleMouseDown s pos)) = canvasSnapshot s
    \<and> fold (\<lambda>p st. handleMouseMove R st p) moves (fst (handleMouseDown s pos))
        = fst (handleMouseDown s pos)"
proof -
  have down: "handleMouseDown s pos = floodFill s pos"
    using assms by (simp add: handleMouseDown_def)
  obtain dc' where s': "fst (floodFill s pos) = s\<lparr>drawingCanvas := dc'\<rparr>"
    using floodFill_only_mask by blast
  have "activeTool (fst (floodFill s pos)) = Fill" using assms by (simp add: s')
  then have "fold (\<lambda>p st. handleMouseMove R st p) moves (fst (floodFill s pos))
        = fst (floodFill s pos)"
    by (rule fold_handleMouseMove_fill)
  then show ?thesis using down by (simp add: s')
qed

theorem fill_tool_has_no_drag_witness:
  "handleMouseDown example_state (0, 0) = floodFill example_state (0, 0)
    \<and> isDrawing (fst (handleMouseDown example_state (0, 0))) = False
    \<and> lastPoint (fst (handleMouseDown example_state (0, 0))) = None
    \<and> shapeStartPoint (fst (handleMouseDown example_state (0, 0))) = None
    \<and> canvasSnapshot (fst (handleMouseDown example_state (0, 0))) = None
    \<and> fold (\<lambda>p st. handleMouseMove example_rasterizer st p) [(1, 0), (1, 1)]
          (fst (handleMouseDown example_state (0, 0)))
        = fst (handleMouseDown example_state (0, 0))"
proof -
  have tool: "activeTool example_state = Fill"
    by (simp add: example_state_def)
  have fields: "isDrawing example_state = False" "lastPoint example_state = None"
    "shapeStartPoint example_state = None" "canvasSnapshot example_state = None"
    by (simp_all add: example_state_def initial_state_def)
  show ?thesis
    by (rule fill_tool_has_no_drag
          [OF tool, of "(0, 0)" example_rasterizer "[(1, 0), (1, 1)]", unfolded fields])
qed

subsection \<open>handleSubmit\<close>

lemma trim_whitespace_only:
  assumes "list_all js_whitespace t"
  shows "trim t = []"
proof -
  have d: "dropWhile js_whitespace t = []"
    using assms by (simp add: list_all_iff)
  show ?thesis unfolding trim_def d by simp
qed

text \<open>
  C3 (amended). When the prompt consists only of white space, \<^verbatim>\<open>handleSubmit\<close> reports
  the validation message, makes no remote call and clears the loading flag; the stored
  edited result and the stored upscaled result are cleared, not kept.
\<close>

theorem handleSubmit_whitespace_prompt:
  assumes "list_all js_whitespace (prompt s)"
  shows "handleSubmit E s =
           (s\<lparr>isLoading := False,
               error := Some ''Please draw a mask and enter a prompt.'',
               editedImage := None, upscaledImage := None\<rparr>, [], None)"
  using trim_whitespace_only [OF assms]
  by (simp add: handleSubmit_def Let_def split: option.splits)

lemma editImageWithMask_no_image_data:
  assumes "provider' (EditRequest args) = ApiResponse parts" "first_inline_data parts = None"
  shows "editImageWithMask provider' args
         = Rejected (Some ''Failed to edit image: No image data found in the API response.'')"
  using assms by (simp add: editImageWithMask_def)

text \<open>
  C2 (amended). When the remote edit call that \<^verbatim>\<open>handleSubmit\<close> made is rejected (which
  includes a response without image data), the final state is the state before the
  submission with one error message, the loading flag cleared, and the stored edited
  and upscaled results both cleared; every other field, the mask buffer included, is
  unchanged.
\<close>

theorem handleSubmit_remote_failure:
  assumes "fst (snd (handleSubmit E s)) = [args]"
    and "editImageWithMask (provider E) args = Rejected err"
  shows "fst (handleSubmit E s) =
           s\<lparr>isLoading := False,
              error := Some (catch_message err ''An unknown error occurred.''),
              editedImage := None, upscaledImage := None\<rparr>"
  using assms
  by (auto simp add: handleSubmit_def Let_def
           split: option.splits sum.splits outcome.splits if_splits)

lemma handleSubmit_with_mask:
  assumes "imageCanvas s = Some ic" "drawingCanvas s = Some dc" "trim (prompt s) \<noteq> []"
    and "createdContext E" "0 < width (bitmap dc)" "0 < height (bitmap dc)"
    and "fileToBase64 E = Resolved b"
    and "args = \<lparr>arg_prompt = prompt s, arg_negativePrompt = negativePrompt s,
             arg_style = style s, arg_originalImageBase64 = b,
             arg_originalMimeType = originalImage_type s,
             arg_mask = \<lparr>width = width (bitmap dc), height = height (bitmap dc),
                          data = replicate (width (bitmap dc) * height (bitmap dc))
                                   (RGBA 255 255 255 255)\<rparr>\<rparr>"
  shows "handleSubmit E s =
           (case editImageWithMask (provider E) args of
              Resolved resultBase64 \<Rightarrow>
                (s\<lparr>isLoading := False, error := None,
                   editedImage := Some (''data:image/png;base64,'' @ resultBase64),
                   upscaledImage := None\<rparr>, [args], None)
            | Rejected err \<Rightarrow>
                (s\<lparr>isLoading := False,
                   error := Some (catch_message err ''An unknown error occurred.''),
                   editedImage := None, upscaledImage := None\<rparr>, [args], None))"
  using assms
  by (simp add: handleSubmit_def Let_def createMask_all_white split: outcome.splits)

lemma handleSubmit_calls_remote:
  assumes "imageCanvas s = Some ic" "drawingCanvas s = Some dc" "trim (prompt s) \<noteq> []"
    and "createdContext E" "0 < width (bitmap dc)" "0 < height (bitmap dc)"
    and "fileToBase64 E = Resolved b"
  shows "fst (snd (handleSubmit E s)) =
           [\<lparr>arg_prompt = prompt s, arg_negativePrompt = negativePrompt s,
             arg_style = style s, arg_originalImageBase64 = b,
             arg_originalMimeType = originalImage_type s,
             arg_mask = \<lparr>width = width (bitmap dc), height = height (bitmap dc),
                          data = replicate (width (bitmap dc) * height (bitmap dc))
                                   (RGBA 255 255 255 255)\<rparr>\<rparr>]"
  by (simp add: handleSubmit_with_mask [OF assms refl] split: outcome.splits)

lemma rectangle_drawn_fields:
  "imageCanvas rectangle_drawn = Some (createCanvas 100 100 True)"
  "prompt rectangle_drawn = [0x61]"
  by (simp_all add: rectangle_drawn_def handleMouseUp_def handleMouseMove_def
        handleMouseDown_def initial_state_def drawShape_def getImageData_def Let_def)

text \<open>
  C1. On the 100 \<times> 100 mask buffer that holds exactly the rectangle from (10, 10) to
  (50, 50) at opacity 1.0 (pixel (0, 0) is transparent, pixel (10, 10) is the opaque
  accent colour), the mask that \<^verbatim>\<open>handleSubmit\<close> sends is white and opaque at every
  pixel: pixel (0, 0), outside the rectangle, is (255, 255, 255, 255) and not
  (0, 0, 0, 0). The black fill makes every alpha 255 before the test \<open>alpha > 0\<close>.
\<close>

theorem handleSubmit_rectangle_mask_all_white:
  "map_option (\<lambda>dc. (pixel_at (bitmap dc) 0 0, pixel_at (bitmap dc) 10 10))
       (drawingCanvas rectangle_drawn)
     = Some (Some (RGBA 0 0 0 0), Some (RGBA 192 132 252 255))
   \<and> map arg_mask (fst (snd (handleSubmit example_env rectangle_drawn)))
     = [\<lparr>width = 100, height = 100, data = replicate 10000 (RGBA 255 255 255 255)\<rparr>]
   \<and> map (\<lambda>a. pixel_at (arg_mask a) 0 0) (fst (snd (handleSubmit example_env rectangle_drawn)))
     = [Some (RGBA 255 255 255 255)]"
proof -
  obtain dc where dc: "drawingCanvas rectangle_drawn = Some dc"
    "width (bitmap dc) = 100" "height (bitmap dc) = 100"
    "pixel_at (bitmap dc) 0 0 = Some transparent_black"
    "pixel_at (bitmap dc) 10 10 = Some (RGBA 192 132 252 255)"
    using rectangle_drawn_canvas by blast
  have t: "trim (prompt rectangle_drawn) \<noteq> []"
    by (simp add: rectangle_drawn_fields trim_def js_whitespace_def)
  have calls: "map arg_mask (fst (snd (handleSubmit example_env rectangle_drawn)))
     = [\<lparr>width = 100, height = 100, data = replicate 10000 (RGBA 255 255 255 255)\<rparr>]"
    using handleSubmit_calls_remote [OF rectangle_drawn_fields(1) dc(1) t, of example_env "''UEhPVE8=''"]
    by (simp add: dc example_env_def)
  have px: "pixel_at \<lparr>width = 100, height = 100,
                       data = replicate 10000 (RGBA 255 255 255 255)\<rparr> 0 0
            = Some (RGBA 255 255 255 255)"
    by (simp add: pixel_at_def)
  have "map (\<lambda>a. pixel_at (arg_mask a) 0 0) (fst (snd (handleSubmit example_env rectangle_drawn)))
        = map (\<lambda>m. pixel_at m 0 0)
            (map arg_mask (fst (snd (handleSubmit example_env rectangle_drawn))))"
    by (simp add: comp_def)
  then show ?thesis using dc calls px by (simp add: transparent_black_def)
qed

theorem handleSubmit_whitespace_prompt_witness:
  "handleSubmit example_env (one_pixel_state\<lparr>prompt := [0x20, 0x9, 0x3000]\<rparr>)
   = (one_pixel_state\<lparr>prompt := [0x20, 0x9, 0x3000],
         error := Some ''Please draw a mask and enter a prompt.''\<rparr>, [], None)"
proof -
  have "list_all js_whitespace (prompt (one_pixel_state\<lparr>prompt := [0x20, 0x9, 0x3000]\<rparr>))"
    by (simp add: js_whitespace_def)
  from handleSubmit_whitespace_prompt [OF this, of example_env]
  show ?thesis by (simp add: one_pixel_state_def initial_state_def)
qed

text \<open>
  C3 as stated fails: a submission with the prompt \<^verbatim>\<open>" "\<close> replaces the stored edited
  result by \<^verbatim>\<open>null\<close>.
\<close>

theorem handleSubmit_whitespace_clears_result:
  "list_all js_whitespace (prompt (one_pixel_state\<lparr>prompt := [0x20],
        editedImage := Some ''data:image/png;base64,T0xE''\<rparr>))
   \<and> editedImage (fst (handleSubmit example_env (one_pixel_state\<lparr>prompt := [0x20],
        editedImage := Some ''data:image/png;base64,T0xE''\<rparr>))) = None
   \<and> editedImage (one_pixel_state\<lparr>prompt := [0x20],
        editedImage := Some ''data:image/png;base64,T0xE''\<rparr>)
       = Some ''data:image/png;base64,T0xE''"
  by (simp add: js_whitespace_def handleSubmit_def trim_def one_pixel_state_def
        initial_state_def Let_def)

lemma submitted_before_call:
  "fst (snd (handleSubmit example_env submitted_before)) =
     [\<lparr>arg_prompt = [0x61], arg_negativePrompt = [], arg_style = ''Default'',
       arg_originalImageBase64 = ''UEhPVE8='', arg_originalMimeType = ''image/png'',
       arg_mask = \<lparr>width = 1, height = 1, data = [RGBA 255 255 255 255]\<rparr>\<rparr>]"
proof -
  have t: "trim (prompt submitted_before) \<noteq> []"
    by (simp add: submitted_before_def trim_def js_whitespace_def)
  have ic: "imageCanvas submitted_before = Some (createCanvas 1 1 True)"
    and dc: "drawingCanvas submitted_before = Some (createCanvas 1 1 True)"
    by (simp_all add: submitted_before_def one_pixel_state_def initial_state_def)
  show ?thesis
    using handleSubmit_calls_remote [OF ic dc t, of example_env "''UEhPVE8=''"]
    by (simp add: example_env_def submitted_before_def one_pixel_state_def initial_state_def)
qed

theorem handleSubmit_remote_failure_witness:
  "fst (handleSubmit example_env submitted_before) =
     submitted_before\<lparr>error := Some ''Failed to edit image: fetch failed'',
        editedImage := None, upscaledImage := None\<rparr>"
proof -
  let ?a = "\<lparr>arg_prompt = [0x61], arg_negativePrompt = [], arg_style = ''Default'',
       arg_originalImageBase64 = ''UEhPVE8='', arg_originalMimeType = ''image/png'',
       arg_mask = \<lparr>width = 1, height = 1, data = [RGBA 255 255 255 255]\<rparr>\<rparr>"
  have r: "editImageWithMask (provider example_env) ?a
           = Rejected (Some ''Failed to edit image: fetch failed'')"
    by (simp add: editImageWithMask_def example_env_def)
  from handleSubmit_remote_failure [OF submitted_before_call r]
  show ?thesis
    by (simp add: submitted_before_def one_pixel_state_def initial_state_def)
qed

text \<open>
  C2 as stated fails: after a submission whose remote call is rejected, the stored
  edited result and the stored upscaled result are \<^verbatim>\<open>null\<close>, not what they were.
\<close>

theorem handleSubmit_failure_clears_results:
  "map (editImageWithMask (provider example_env))
       (fst (snd (handleSubmit example_env submitted_before)))
     = [Rejected (Some ''Failed to edit image: fetch failed'')]
   \<and> editedImage submitted_before = Some ''data:image/png;base64,T0xE''
   \<and> upscaledImage submitted_before = Some ''data:image/png;base64,QklH''
   \<and> editedImage (fst (handleSubmit example_env submitted_before)) = None
   \<and> upscaledImage (fst (handleSubmit example_env submitted_before)) = None"
proof -
  have r: "map (editImageWithMask (provider example_env))
       (fst (snd (handleSubmit example_env submitted_before)))
     = [Rejected (Some ''Failed to edit image: fetch failed'')]"
    unfolding submitted_before_call
    by (simp add: editImageWithMask_def example_env_def)
  have t: "trim (prompt submitted_before) \<noteq> []"
    by (simp add: submitted_before_def trim_def js_whitespace_def)
  have ic: "imageCanvas submitted_before = Some (createCanvas 1 1 True)"
    and dc: "drawingCanvas submitted_before = Some (createCanvas 1 1 True)"
    by (simp_all add: submitted_before_def one_pixel_state_def initial_state_def)
  let ?a = "\<lparr>arg_prompt = prompt submitted_before,
       arg_negativePrompt = negativePrompt submitted_before,
       arg_style = style submitted_before, arg_originalImageBase64 = ''UEhPVE8='',
       arg_originalMimeType = originalImage_type submitted_before,
       arg_mask = \<lparr>width = width (bitmap (createCanvas 1 1 True)),
                    height = height (bitmap (createCanvas 1 1 True)),
                    data = replicate (width (bitmap (createCanvas 1 1 True))
                                      * height (bitmap (createCanvas 1 1 True)))
                             (RGBA 255 255 255 255)\<rparr>\<rparr>"
  have rej: "editImageWithMask (provider example_env) ?a
             = Rejected (Some ''Failed to edit image: fetch failed'')"
    by (simp add: editImageWithMask_def example_env_def)
  have ctx: "createdContext example_env"
    and f: "fileToBase64 example_env = Resolved ''UEhPVE8=''"
    by (simp_all add: example_env_def)
  have w: "0 < width (bitmap (createCanvas 1 1 True))"
    and h: "0 < height (bitmap (createCanvas 1 1 True))"
    by simp_all
  note hs = handleSubmit_with_mask [OF ic dc t ctx w h f refl]
  have "editedImage (fst (handleSubmit example_env submitted_before)) = None
   \<and> upscaledImage (fst (handleSubmit example_env submitted_before)) = None"
    unfolding hs rej by simp
  then show ?thesis using r
    by (simp add: submitted_before_def one_pixel_state_def initial_state_def)
qed

subsection \<open>handleAutoMask\<close>

lemma unat_byte_of_int:
  assumes "0 \<le> k" "k \<le> 255"
  shows "unat (word_of_int k :: byte) = nat k"
proof -
  have "uint (word_of_int k :: byte) = k mod 256"
    by (simp add: uint_word_of_int)
  also have "\<dots> = k" using assms by simp
  finally show ?thesis by (simp add: unat_eq_nat_uint)
qed

lemma to_uint8_clamp_near:
  assumes "0 \<le> q" "q \<le> 255"
  shows "\<bar>real (unat (to_uint8_clamp q)) - q\<bar> \<le> 1 / 2"
proof (cases "q \<le> 0 \<or> 255 \<le> q")
  case True
  then show ?thesis using assms by (auto simp add: to_uint8_clamp_def)
next
  case False
  let ?f = "\<lfloor>q\<rfloor>"
  have f0: "0 \<le> ?f" using assms by simp
  have f1: "?f \<le> 254"
  proof -
    have "q < 255" using False by simp
    then have "?f < 255" by (simp add: floor_less_iff)
    then show ?thesis by simp
  qed
  have lo: "of_int ?f \<le> q" and hi: "q < of_int ?f + 1" by linarith+
  have u0: "real (unat (word_of_int ?f :: byte)) = of_int ?f"
    using f0 f1 by (simp add: unat_byte_of_int)
  have "unat (word_of_int (?f + 1) :: byte) = nat (?f + 1)"
    using f0 f1 by (intro unat_byte_of_int) simp_all
  then have u1: "real (unat (word_of_int (?f + 1) :: byte)) = of_int ?f + 1"
    using f0 by simp
  show ?thesis
    using False lo hi u0 u1
    by (auto simp add: to_uint8_clamp_def Let_def simp del: of_int_add)
qed

lemma map_pixels_from_source:
  assumes "length (data img) = width img * height img"
    and "width src = width img" "height src = height img"
    and "length (data src) = width img * height img"
  shows "map_pixels (\<lambda>x y d. case pixel_at src x y of None \<Rightarrow> d | Some p \<Rightarrow> g p d) img
         = img\<lparr>data := map2 g (data src) (data img)\<rparr>"
proof -
  let ?n = "width img * height img"
  have "map (\<lambda>i. if i < ?n
                  then (case pixel_at src (i mod width img) (i div width img) of
                          None \<Rightarrow> data img ! i | Some p \<Rightarrow> g p (data img ! i))
                  else data img ! i) [0..<length (data img)]
        = map2 g (data src) (data img)"
  proof (rule nth_equalityI)
    show "length (map (\<lambda>i. if i < ?n
                  then (case pixel_at src (i mod width img) (i div width img) of
                          None \<Rightarrow> data img ! i | Some p \<Rightarrow> g p (data img ! i))
                  else data img ! i) [0..<length (data img)])
          = length (map2 g (data src) (data img))"
      using assms by simp
  next
    fix i
    assume "i < length (map (\<lambda>i. if i < ?n
                  then (case pixel_at src (i mod width img) (i div width img) of
                          None \<Rightarrow> data img ! i | Some p \<Rightarrow> g p (data img ! i))
                  else data img ! i) [0..<length (data img)])"
    then have i: "i < ?n" using assms by simp
    have "pixel_at src (i mod width img) (i div width img) = Some (data src ! i)"
      using index_join [OF i] i assms by (simp add: pixel_at_def)
    then show "map (\<lambda>i. if i < ?n
                  then (case pixel_at src (i mod width img) (i div width img) of
                          None \<Rightarrow> data img ! i | Some p \<Rightarrow> g p (data img ! i))
                  else data img ! i) [0..<length (data img)] ! i
          = map2 g (data src) (data img) ! i"
      using i assms by simp
  qed
  then show ?thesis by (simp add: map_pixels_def)
qed

lemma map2_onto_clear:
  "length ys = n \<Longrightarrow>
   map2 composite_source_over ys (replicate n transparent_black) = map opaque_or_clear ys"
  by (rule nth_equalityI) (simp_all add: source_over_onto_clear opaque_or_clear_def)

lemma getImageData_whole:
  assumes "length (data (bitmap c)) = width (bitmap c) * height (bitmap c)"
    and "0 < width (bitmap c)" "0 < height (bitmap c)"
  shows "getImageData c (width (bitmap c)) (height (bitmap c)) = Inr (bitmap c)"
proof -
  let ?w = "width (bitmap c)" and ?h = "height (bitmap c)"
  have "map (\<lambda>i. case pixel_at (bitmap c) (i mod ?w) (i div ?w) of
                    None \<Rightarrow> transparent_black | Some p \<Rightarrow> p) [0..<?w * ?h]
        = map (\<lambda>i. data (bitmap c) ! i) [0..<length (data (bitmap c))]"
    unfolding assms(1)
  proof (rule map_cong [OF refl])
    fix i assume "i \<in> set [0..<?w * ?h]"
    then have i: "i < ?w * ?h" by simp
    have "pixel_at (bitmap c) (i mod ?w) (i div ?w) = Some (data (bitmap c) ! i)"
      using index_join [OF i] i assms by (simp add: pixel_at_def)
    then show "(case pixel_at (bitmap c) (i mod ?w) (i div ?w) of
                  None \<Rightarrow> transparent_black | Some p \<Rightarrow> p) = data (bitmap c) ! i"
      by simp
  qed
  then have "map (\<lambda>i. case pixel_at (bitmap c) (i mod ?w) (i div ?w) of
                    None \<Rightarrow> transparent_black | Some p \<Rightarrow> p) [0..<?w * ?h]
        = data (bitmap c)"
    by (simp only: map_nth)
  then show ?thesis using assms by (cases "bitmap c") (simp add: getImageData_def)
qed

lemma handleAutoMask_success:
  assumes env: "fileToBase64 E = Resolved b"
      "generateBackgroundMask (provider E) b (originalImage_type s) = Resolved m"
      "loadImage E (''data:image/png;base64,'' @ m) = Some maskImage" "createdContext E"
    and canvas: "drawingCanvas s = Some c" "context2d c"
      "width (bitmap c) = w" "height (bitmap c) = h" "0 < w" "0 < h"
    and image: "width (maskImage w h) = w" "height (maskImage w h) = h"
      "length (data (maskImage w h)) = w * h"
  shows "fst (handleAutoMask E s) =
           s\<lparr>isMasking := False, error := None,
              drawingCanvas := Some (drawImage (clearRect_all c)
                \<lparr>width = w, height = h,
                 data = map (\<lambda>p. normalize_pixel (brushOpacity s) (opaque_or_clear p))
                          (data (maskImage w h))\<rparr>)\<rparr>"
proof -
  let ?Y = "maskImage w h"
  let ?blank = "\<lparr>width = w, height = h, data = replicate (w * h) transparent_black\<rparr>"
  let ?t1 = "\<lparr>width = w, height = h, data = map opaque_or_clear (data ?Y)\<rparr>"
  let ?norm = "map (\<lambda>x. normalize_pixel (brushOpacity s) (opaque_or_clear x)) (data ?Y)"
  let ?t2 = "\<lparr>width = w, height = h, data = ?norm\<rparr>"
  have temp1: "drawImage (createCanvas w h True) ?Y
               = \<lparr>bitmap = ?t1, globalCompositeOperation = SourceOver, context2d = True\<rparr>"
  proof -
    have "map_pixels (\<lambda>x y d. case pixel_at ?Y x y of
                        None \<Rightarrow> d | Some p \<Rightarrow> composite_source_over p d) ?blank
          = ?blank\<lparr>data := map2 composite_source_over (data ?Y) (data ?blank)\<rparr>"
      by (rule map_pixels_from_source) (simp_all add: image)
    then show ?thesis
      by (simp add: drawImage_def createCanvas_def map2_onto_clear image
            cong: option.case_cong)
  qed
  have get: "getImageData \<lparr>bitmap = ?t1, globalCompositeOperation = SourceOver,
                            context2d = True\<rparr> w h = Inr ?t1"
    using getImageData_whole
      [of "\<lparr>bitmap = ?t1, globalCompositeOperation = SourceOver, context2d = True\<rparr>"]
      canvas image by simp
  have temp2: "putImageData \<lparr>bitmap = ?t1, globalCompositeOperation = SourceOver,
                             context2d = True\<rparr> ?t2
               = \<lparr>bitmap = ?t2, globalCompositeOperation = SourceOver, context2d = True\<rparr>"
  proof -
    have "map_pixels (\<lambda>x y d. case pixel_at ?t2 x y of
                        None \<Rightarrow> d | Some p \<Rightarrow> (\<lambda>p d. p) p d) ?t1
          = ?t1\<lparr>data := map2 (\<lambda>p d. p) (data ?t2) (data ?t1)\<rparr>"
      by (rule map_pixels_from_source) (simp_all add: image)
    moreover have "map2 (\<lambda>p d. p) ?norm (map opaque_or_clear (data ?Y)) = ?norm"
      by (rule nth_equalityI) simp_all
    ultimately show ?thesis by (simp add: putImageData_def)
  qed
  show ?thesis
    using env canvas
    by (simp add: handleAutoMask_def Let_def temp1 get temp2 clearDrawing_def comp_def)
qed

text \<open>
  C8. In a successful run of \<^verbatim>\<open>handleAutoMask\<close> the image \<open>N\<close> that is composited onto the
  cleared mask buffer has the size of the buffer, and every one of its pixels is the
  rewritten pixel of the segmentation image (as the temporary canvas holds it): when the
  red, green and blue channels are each strictly greater than 200, the accent colour
  (192, 132, 252) with the alpha that the store of \<open>255 * brushOpacity\<close> into the byte
  array yields (the nearest byte, within one half of \<open>255 * brushOpacity\<close>, and 255 at
  opacity 1); otherwise the same colour with alpha 0.
\<close>

theorem handleAutoMask_normalizes:
  assumes env: "fileToBase64 E = Resolved b"
      "generateBackgroundMask (provider E) b (originalImage_type s) = Resolved m"
      "loadImage E (''data:image/png;base64,'' @ m) = Some maskImage" "createdContext E"
    and canvas: "drawingCanvas s = Some c" "context2d c"
      "width (bitmap c) = w" "height (bitmap c) = h" "0 < w" "0 < h"
    and image: "width (maskImage w h) = w" "height (maskImage w h) = h"
      "length (data (maskImage w h)) = w * h"
  shows "\<exists>N. fst (handleAutoMask E s) =
               s\<lparr>isMasking := False, error := None,
                  drawingCanvas := Some (drawImage (clearRect_all c) N)\<rparr>
           \<and> width N = w \<and> height N = h \<and> length (data N) = w * h
           \<and> (\<forall>i<w * h.
                 data N ! i =
                   (let p = opaque_or_clear (data (maskImage w h) ! i) in
                    if 200 < unat (red p) \<and> 200 < unat (green p) \<and> 200 < unat (blue p)
                    then RGBA 192 132 252 (to_uint8_clamp (255 * brushOpacity s))
                    else RGBA (red p) (green p) (blue p) 0))
           \<and> (0 \<le> brushOpacity s \<and> brushOpacity s \<le> 1 \<longrightarrow>
                 \<bar>real (unat (to_uint8_clamp (255 * brushOpacity s))) - 255 * brushOpacity s\<bar>
                   \<le> 1 / 2)
           \<and> (brushOpacity s = 1 \<longrightarrow> to_uint8_clamp (255 * brushOpacity s) = 255)"
proof -
  let ?N = "\<lparr>width = w, height = h,
             data = map (\<lambda>p. normalize_pixel (brushOpacity s) (opaque_or_clear p))
                      (data (maskImage w h))\<rparr>"
  have run: "fst (handleAutoMask E s) =
               s\<lparr>isMasking := False, error := None,
                  drawingCanvas := Some (drawImage (clearRect_all c) ?N)\<rparr>"
    using env canvas image by (rule handleAutoMask_success)
  have px: "\<forall>i<w * h.
                 data ?N ! i =
                   (let p = opaque_or_clear (data (maskImage w h) ! i) in
                    if 200 < unat (red p) \<and> 200 < unat (green p) \<and> 200 < unat (blue p)
                    then RGBA 192 132 252 (to_uint8_clamp (255 * brushOpacity s))
                    else RGBA (red p) (green p) (blue p) 0)"
    using image by (simp add: normalize_pixel_def isWhite_def word_less_nat_alt Let_def)
  have near: "0 \<le> brushOpacity s \<and> brushOpacity s \<le> 1 \<longrightarrow>
                 \<bar>real (unat (to_uint8_clamp (255 * brushOpacity s))) - 255 * brushOpacity s\<bar>
                   \<le> 1 / 2"
  proof
    assume "0 \<le> brushOpacity s \<and> brushOpacity s \<le> 1"
    then show "\<bar>real (unat (to_uint8_clamp (255 * brushOpacity s))) - 255 * brushOpacity s\<bar>
                 \<le> 1 / 2"
      by (intro to_uint8_clamp_near) simp_all
  qed
  have full: "brushOpacity s = 1 \<longrightarrow> to_uint8_clamp (255 * brushOpacity s) = 255"
    by (simp add: to_uint8_clamp_def)
  have dims: "width ?N = w \<and> height ?N = h \<and> length (data ?N) = w * h"
    using image by simp
  show ?thesis
    using run px near full dims by (intro exI [of _ ?N]) blast
qed

theorem handleAutoMask_normalizes_witness:
  "\<exists>N. fst (handleAutoMask segmentation_env example_state) =
          example_state\<lparr>isMasking := False, error := None,
             drawingCanvas := Some (drawImage (clearRect_all example_painted) N)\<rparr>
      \<and> width N = 2 \<and> height N = 2 \<and> length (data N) = 4
      \<and> data N ! 0 = RGBA 192 132 252 178
      \<and> data N ! 1 = RGBA 200 255 255 0
      \<and> data N ! 2 = RGBA 0 0 0 0
      \<and> data N ! 3 = RGBA 10 10 10 0"
proof -
  have env: "fileToBase64 segmentation_env = Resolved ''UEhPVE8=''"
    "generateBackgroundMask (provider segmentation_env) ''UEhPVE8=''
       (originalImage_type example_state) = Resolved ''TUFTSw==''"
    "loadImage segmentation_env (''data:image/png;base64,'' @ ''TUFTSw=='')
       = Some example_segmentation"
    "createdContext segmentation_env"
    by (simp_all add: segmentation_env_def example_env_def generateBackgroundMask_def)
  have canvas: "drawingCanvas example_state = Some example_painted"
    "context2d example_painted"
    "width (bitmap example_painted) = 2" "height (bitmap example_painted) = 2"
    "0 < (2::nat)" "0 < (2::nat)"
    by (simp_all add: example_state_def initial_state_def example_painted_def)
  have image: "width (example_segmentation 2 2) = 2" "height (example_segmentation 2 2) = 2"
    "length (data (example_segmentation 2 2)) = 2 * 2"
    by (simp_all add: example_segmentation_def)
  have op: "brushOpacity example_state = 7 / 10"
    by (simp add: example_state_def initial_state_def)
  have c: "to_uint8_clamp (255 * brushOpacity example_state) = 178"
    by (simp add: op to_uint8_clamp_def Let_def)
  have seg: "opaque_or_clear (data (example_segmentation 2 2) ! 0) = RGBA 201 201 201 255"
    "opaque_or_clear (data (example_segmentation 2 2) ! 1) = RGBA 200 255 255 255"
    "opaque_or_clear (data (example_segmentation 2 2) ! 2) = RGBA 0 0 0 0"
    "opaque_or_clear (data (example_segmentation 2 2) ! 3) = RGBA 10 10 10 255"
    by (simp_all add: example_segmentation_def opaque_or_clear_def transparent_black_def)
  have lt: "(0::nat) < 2 * 2" "(1::nat) < 2 * 2" "(2::nat) < 2 * 2" "(3::nat) < 2 * 2"
    by simp_all
  obtain N where N: "fst (handleAutoMask segmentation_env example_state) =
          example_state\<lparr>isMasking := False, error := None,
             drawingCanvas := Some (drawImage (clearRect_all example_painted) N)\<rparr>"
      "width N = 2" "height N = 2" "length (data N) = 2 * 2"
      "\<forall>i<2 * 2.
         data N ! i =
           (let p = opaque_or_clear (data (example_segmentation 2 2) ! i) in
            if 200 < unat (red p) \<and> 200 < unat (green p) \<and> 200 < unat (blue p)
            then RGBA 192 132 252 (to_uint8_clamp (255 * brushOpacity example_state))
            else RGBA (red p) (green p) (blue p) 0)"
    using handleAutoMask_normalizes [OF env canvas image] by blast
  have p0: "data N ! 0 = RGBA 192 132 252 178"
    unfolding N(5) [rule_format, OF lt(1)] seg c by simp
  have p1: "data N ! 1 = RGBA 200 255 255 0"
    unfolding N(5) [rule_format, OF lt(2)] seg c by simp
  have p2: "data N ! 2 = RGBA 0 0 0 0"
    unfolding N(5) [rule_format, OF lt(3)] seg c by simp
  have p3: "data N ! 3 = RGBA 10 10 10 0"
    unfolding N(5) [rule_format, OF lt(4)] seg c by simp
  show ?thesis using N(1-4) p0 p1 p2 p3 by (intro exI [of _ N]) simp
qed

text \<open>
  While the context of the drawing canvas is in the mode \<^verbatim>\<open>source-over\<close>, a successful
  run leaves the normalised segmentation image in the mask buffer (a pixel of alpha 0
  being transparent black), whatever the buffer held before.
\<close>

lemma handleAutoMask_source_over:
  assumes env: "fileToBase64 E = Resolved b"
      "generateBackgroundMask (provider E) b (originalImage_type s) = Resolved m"
      "loadImage E (''data:image/png;base64,'' @ m) = Some maskImage" "createdContext E"
    and canvas: "drawingCanvas s = Some c" "context2d c"
      "globalCompositeOperation c = SourceOver"
      "width (bitmap c) = w" "height (bitmap c) = h" "length (data (bitmap c)) = w * h"
      "0 < w" "0 < h"
    and image: "width (maskImage w h) = w" "height (maskImage w h) = h"
      "length (data (maskImage w h)) = w * h"
  shows "fst (handleAutoMask E s) =
           s\<lparr>isMasking := False, error := None,
              drawingCanvas := Some (c\<lparr>bitmap := \<lparr>width = w, height = h,
                 data = map (opaque_or_clear \<circ> normalize_pixel (brushOpacity s) \<circ> opaque_or_clear)
                          (data (maskImage w h))\<rparr>\<rparr>)\<rparr>"
proof -
  let ?Y = "maskImage w h"
  let ?blank = "\<lparr>width = w, height = h, data = replicate (w * h) transparent_black\<rparr>"
  let ?t1 = "\<lparr>width = w, height = h, data = map opaque_or_clear (data ?Y)\<rparr>"
  let ?norm = "map (\<lambda>x. normalize_pixel (brushOpacity s) (opaque_or_clear x)) (data ?Y)"
  let ?t2 = "\<lparr>width = w, height = h, data = ?norm\<rparr>"
  have temp1: "drawImage (createCanvas w h True) ?Y
               = \<lparr>bitmap = ?t1, globalCompositeOperation = SourceOver, context2d = True\<rparr>"
  proof -
    have "map_pixels (\<lambda>x y d. case pixel_at ?Y x y of
                        None \<Rightarrow> d | Some p \<Rightarrow> composite_source_over p d) ?blank
          = ?blank\<lparr>data := map2 composite_source_over (data ?Y) (data ?blank)\<rparr>"
      by (rule map_pixels_from_source) (simp_all add: image)
    then show ?thesis
      by (simp add: drawImage_def createCanvas_def map2_onto_clear image
            cong: option.case_cong)
  qed
  have get: "getImageData \<lparr>bitmap = ?t1, globalCompositeOperation = SourceOver,
                            context2d = True\<rparr> w h = Inr ?t1"
    using getImageData_whole
      [of "\<lparr>bitmap = ?t1, globalCompositeOperation = SourceOver, context2d = True\<rparr>"]
      canvas image by simp
  have temp2: "putImageData \<lparr>bitmap = ?t1, globalCompositeOperation = SourceOver,
                             context2d = True\<rparr> ?t2
               = \<lparr>bitmap = ?t2, globalCompositeOperation = SourceOver, context2d = True\<rparr>"
  proof -
    have "map_pixels (\<lambda>x y d. case pixel_at ?t2 x y of
                        None \<Rightarrow> d | Some p \<Rightarrow> (\<lambda>p d. p) p d) ?t1
          = ?t1\<lparr>data := map2 (\<lambda>p d. p) (data ?t2) (data ?t1)\<rparr>"
      by (rule map_pixels_from_source) (simp_all add: image)
    moreover have "map2 (\<lambda>p d. p) ?norm (map opaque_or_clear (data ?Y)) = ?norm"
      by (rule nth_equalityI) simp_all
    ultimately show ?thesis by (simp add: putImageData_def)
  qed
  have cleared: "clearRect_all c = c\<lparr>bitmap := ?blank\<rparr>"
  proof -
    have "map_pixels (\<lambda>x y d. transparent_black) (bitmap c)
          = (bitmap c)\<lparr>data := replicate (width (bitmap c) * height (bitmap c))
                                  transparent_black\<rparr>"
      by (rule map_pixels_const) (simp_all add: canvas)
    then show ?thesis using canvas by (simp add: clearRect_all_def)
  qed
  have final: "drawImage (c\<lparr>bitmap := ?blank\<rparr>) ?t2
               = c\<lparr>bitmap := \<lparr>width = w, height = h, data = map opaque_or_clear ?norm\<rparr>\<rparr>"
  proof -
    have "map_pixels (\<lambda>x y d. case pixel_at ?t2 x y of
                        None \<Rightarrow> d | Some p \<Rightarrow> composite_source_over p d) ?blank
          = ?blank\<lparr>data := map2 composite_source_over (data ?t2) (data ?blank)\<rparr>"
      by (rule map_pixels_from_source) (simp_all add: image)
    then show ?thesis using canvas
      by (simp add: drawImage_def map2_onto_clear image cong: option.case_cong)
  qed
  show ?thesis
    using env canvas
    by (simp add: handleAutoMask_def Let_def temp1 get temp2 clearDrawing_def cleared final
          comp_def)
qed

text \<open>
  C7. The same empty mask buffer, once with the context in its initial compositing mode
  and once after an eraser stroke (which leaves the mode \<^verbatim>\<open>destination-out\<close>): a
  successful auto-mask run with an all-white segmentation image gives the normalised
  pixel in the first case and an empty buffer in the second.
\<close>

theorem handleAutoMask_after_eraser_is_empty:
  "map_option (data \<circ> bitmap) (drawingCanvas one_pixel_state) = Some [RGBA 0 0 0 0]
   \<and> map_option (data \<circ> bitmap) (drawingCanvas erased_state) = Some [RGBA 0 0 0 0]
   \<and> map_option (data \<circ> bitmap)
         (drawingCanvas (fst (handleAutoMask example_env one_pixel_state)))
       = Some [RGBA 192 132 252 178]
   \<and> map_option (data \<circ> bitmap)
         (drawingCanvas (fst (handleAutoMask example_env erased_state)))
       = Some [RGBA 0 0 0 0]"
  by (simp add: erased_state_def handleAutoMask_def drawLine_def one_pixel_state_def
        initial_state_def example_env_def example_rasterizer_def generateBackgroundMask_def
        clearDrawing_def clearRect_all_def drawImage_def putImageData_def getImageData_def
        fill_coverage_def map_pixels_def pixel_at_def createCanvas_def accent_def
        css_alpha_def math_round_def scale_alpha_def composite_source_over_def
        composite_destination_out_def transparent_black_def div_round_def
        normalize_pixel_def isWhite_def to_uint8_clamp_def Let_def)

subsection \<open>The eraser\<close>

lemma css_alpha_opaque: "1 \<le> a \<Longrightarrow> css_alpha a = 255"
  by (simp add: css_alpha_def)

text \<open>
  C4 (amended). Whatever the mask buffer holds, an eraser stroke (\<^verbatim>\<open>drawLine\<close> with the
  eraser tool) at the configured opacity 1.0 leaves every pixel that the stroke covers
  fully with alpha 0.
\<close>

theorem eraser_stroke_alpha:
  assumes "activeTool s = Eraser" "drawingCanvas s = Some c" "context2d c"
    and "pixel_at (bitmap c) x y = Some p"
    and "1 \<le> stroke_coverage R (brushSize s) a b x y"
    and "1 \<le> brushOpacity s"
  shows "\<exists>c' q. drawingCanvas (drawLine R s a b) = Some c'
           \<and> pixel_at (bitmap c') x y = Some q \<and> alpha q = 0"
proof -
  let ?src = "RGBA 192 132 252 (css_alpha (brushOpacity s))"
  let ?q = "composite_destination_out ?src p"
  have cov: "\<not> stroke_coverage R (brushSize s) a b x y \<le> 0" using assms(5) by simp
  have "\<exists>c'. drawingCanvas (drawLine R s a b) = Some c' \<and> pixel_at (bitmap c') x y = Some ?q"
    using assms cov
    by (simp add: drawLine_def fill_coverage_def pixel_at_map_pixels accent_def scale_alpha_def
          Let_def)
  moreover have "alpha ?q = 0"
    using assms(6)
    by (simp add: composite_destination_out_def css_alpha_opaque div_round_zero
          transparent_black_def)
  ultimately show ?thesis by blast
qed

text \<open>
  C4 as stated fails: at the initial opacity 0.7, a pixel that one brush stroke has
  painted still has a positive alpha after the eraser stroke over the same region.
\<close>

theorem eraser_leaves_alpha_at_default_opacity:
  "stroke_coverage example_rasterizer (brushSize one_pixel_state) (0, 0) (1, 1) 0 0 = 1
   \<and> map_option (map ((<) 0 \<circ> alpha) \<circ> data \<circ> bitmap)
        (drawingCanvas (drawLine example_rasterizer one_pixel_state (0, 0) (1, 1)))
       = Some [True]
   \<and> map_option (map ((<) 0 \<circ> alpha) \<circ> data \<circ> bitmap) (drawingCanvas brushed_then_erased)
       = Some [True]"
  by (simp add: brushed_then_erased_def drawLine_def one_pixel_state_def initial_state_def
        example_rasterizer_def fill_coverage_def map_pixels_def createCanvas_def accent_def
        css_alpha_def math_round_def scale_alpha_def composite_source_over_def
        composite_destination_out_def transparent_black_def div_round_def Let_def)

theorem eraser_stroke_alpha_witness:
  "\<exists>c' q. drawingCanvas
            (drawLine example_rasterizer
               (one_pixel_state\<lparr>activeTool := Eraser, brushOpacity := 1,
                   drawingCanvas := Some example_painted\<rparr>) (0, 0) (2, 2)) = Some c'
         \<and> pixel_at (bitmap c') 1 0 = Some q \<and> alpha q = 0"
proof -
  let ?s = "one_pixel_state\<lparr>activeTool := Eraser, brushOpacity := 1,
                   drawingCanvas := Some example_painted\<rparr>"
  have tool: "activeTool ?s = Eraser" and dc: "drawingCanvas ?s = Some example_painted"
    and ctx: "context2d example_painted"
    and px: "pixel_at (bitmap example_painted) 1 0 = Some (RGBA 192 132 252 179)"
    and cov: "1 \<le> stroke_coverage example_rasterizer (brushSize ?s) (0, 0) (2, 2) 1 0"
    and op: "1 \<le> brushOpacity ?s"
    by (simp_all add: example_painted_def pixel_at_def example_rasterizer_def
          one_pixel_state_def initial_state_def)
  show ?thesis
    by (rule eraser_stroke_alpha [OF tool dc ctx px cov op])
qed

subsection \<open>resizeImage\<close>

lemma math_round_near:
  "\<bar>of_int (math_round q) - q\<bar> \<le> 1 / 2"
proof -
  have "of_int \<lfloor>q + 1 / 2\<rfloor> \<le> q + 1 / 2" by (rule of_int_floor_le)
  moreover have "q + 1 / 2 < of_int \<lfloor>q + 1 / 2\<rfloor> + 1" by linarith
  ultimately show ?thesis unfolding math_round_def by linarith
qed

lemma scaled_side_bounds:
  assumes "a \<le> b" "0 < b"
  shows "0 \<le> math_round (of_nat a * (1024 / of_nat b))"
    and "math_round (of_nat a * (1024 / of_nat b)) \<le> 1024"
proof -
  let ?q = "(of_nat a * (1024 / of_nat b)) :: real"
  have b: "(0::real) < of_nat b" using assms by simp
  have "(of_nat a :: real) \<le> of_nat b" using assms by simp
  then have "(of_nat a :: real) / of_nat b \<le> 1" using b by (simp add: divide_le_eq)
  then have le: "?q \<le> 1024" using b by (simp add: divide_le_eq)
  have ge: "0 \<le> ?q" using b by simp
  show "0 \<le> math_round ?q"
    unfolding math_round_def using ge by (simp add: zero_le_floor)
  have "?q + 1 / 2 < of_int 1025" using le by simp
  then have "\<lfloor>?q + 1 / 2\<rfloor> < 1025" by (simp only: floor_less_iff)
  then show "math_round ?q \<le> 1024" unfolding math_round_def by simp
qed

text \<open>
  C9. An image of width 2000 and height 1000 gets the buffer dimensions (1024, 512).
  An image with both sides at most 1024 keeps its dimensions. Otherwise the longer side
  becomes 1024 and the other side is the nearest integer to the side scaled by the same
  ratio (within one half of it, and at most 1024).
\<close>

theorem resizeImage_spec:
  "resizeImage (2000, 1000) = (1024, 512)
   \<and> (\<forall>w h. w \<le> 1024 \<and> h \<le> 1024 \<longrightarrow> resizeImage (w, h) = (w, h))
   \<and> (\<forall>w h. (1024 < w \<or> 1024 < h) \<and> h < w \<longrightarrow>
        fst (resizeImage (w, h)) = 1024 \<and> snd (resizeImage (w, h)) \<le> 1024
        \<and> \<bar>of_nat (snd (resizeImage (w, h))) - of_nat h * (1024 / of_nat w :: real)\<bar> \<le> 1 / 2)
   \<and> (\<forall>w h. (1024 < w \<or> 1024 < h) \<and> w \<le> h \<longrightarrow>
        snd (resizeImage (w, h)) = 1024 \<and> fst (resizeImage (w, h)) \<le> 1024
        \<and> \<bar>of_nat (fst (resizeImage (w, h))) - of_nat w * (1024 / of_nat h :: real)\<bar> \<le> 1 / 2)"
proof (intro conjI allI impI)
  show "resizeImage (2000, 1000) = (1024, 512)"
    by (simp add: resizeImage_def MAX_DIMENSION_def math_round_def)
next
  fix w h :: nat
  assume "w \<le> 1024 \<and> h \<le> 1024"
  then show "resizeImage (w, h) = (w, h)"
    by (simp add: resizeImage_def MAX_DIMENSION_def)
next
  fix w h :: nat
  assume a: "(1024 < w \<or> 1024 < h) \<and> h < w"
  let ?r = "math_round (of_nat h * (1024 / of_nat w))"
  have r: "resizeImage (w, h) = (1024, nat ?r)"
    using a by (simp add: resizeImage_def MAX_DIMENSION_def)
  have nn: "0 \<le> ?r" and le: "?r \<le> 1024"
    using a scaled_side_bounds [of h w] by simp_all
  show "fst (resizeImage (w, h)) = 1024" by (simp add: r)
  show "snd (resizeImage (w, h)) \<le> 1024" using le nn by (simp add: r)
  have "(of_nat (nat ?r) :: real) = of_int ?r" using nn by simp
  then show "\<bar>of_nat (snd (resizeImage (w, h))) - of_nat h * (1024 / of_nat w :: real)\<bar> \<le> 1 / 2"
    using math_round_near [of "of_nat h * (1024 / of_nat w)"] by (simp add: r)
next
  fix w h :: nat
  assume a: "(1024 < w \<or> 1024 < h) \<and> w \<le> h"
  let ?r = "math_round (of_nat w * (1024 / of_nat h))"
  have r: "resizeImage (w, h) = (nat ?r, 1024)"
    using a by (auto simp add: resizeImage_def MAX_DIMENSION_def)
  have nn: "0 \<le> ?r" and le: "?r \<le> 1024"
    using a scaled_side_bounds [of w h] by auto
  show "snd (resizeImage (w, h)) = 1024" by (simp add: r)
  show "fst (resizeImage (w, h)) \<le> 1024" using le nn by (simp add: r)
  have "(of_nat (nat ?r) :: real) = of_int ?r" using nn by simp
  then show "\<bar>of_nat (fst (resizeImage (w, h))) - of_nat w * (1024 / of_nat h :: real)\<bar> \<le> 1 / 2"
    using math_round_near [of "of_nat w * (1024 / of_nat h)"] by (simp add: r)
qed

theorem resizeImage_spec_witness:
  "resizeImage (800, 600) = (800, 600)
   \<and> fst (resizeImage (4000, 3000)) = 1024 \<and> snd (resizeImage (4000, 3000)) = 768
   \<and> snd (resizeImage (600, 2048)) = 1024 \<and> fst (resizeImage (600, 2048)) = 300"
proof -
  have a: "resizeImage (800, 600) = (800, 600)"
    using resizeImage_spec by simp
  have b: "fst (resizeImage (4000, 3000)) = 1024"
    using resizeImage_spec by simp
  have c: "snd (resizeImage (600, 2048)) = 1024"
    using resizeImage_spec by simp
  have d: "snd (resizeImage (4000, 3000)) = 768" "fst (resizeImage (600, 2048)) = 300"
    by (simp_all add: resizeImage_def MAX_DIMENSION_def math_round_def)
  show ?thesis using a b c d by simp
qed

end
